theory Spec2Isabelle
  imports Complex_Main "HOL-Library.AList"
begin

section \<open>Decimal arithmetic\<close>

text \<open>
  Every amount of the application is a Python \<open>decimal.Decimal\<close>. A Decimal is a sign,
  an integer coefficient and a power of ten, so its value is a rational number, and the
  model works on these values. The arithmetic operators of Decimal are not exact: under
  the default context (nowhere changed by the application) every result is rounded to
  28 significant digits with ROUND_HALF_EVEN, and \<open>quantize\<close> rounds with the same mode
  and raises InvalidOperation when its result needs more than 28 digits. The operations
  below write that rounding out. Comparisons (\<open>==\<close>, \<open><\<close>, \<open>>\<close>) are exact and are the
  comparisons of the rationals. The exponent limits of the context (\<open>Emax = 999999\<close>) and
  the textual form of a Decimal (trailing zeros) are not represented.
\<close>

type_synonym decimal = rat

datatype error =
    DivisionByZero
  | InvalidOperation
  | DateOutOfRange
  | BusinessNotFound int

definition round_half_even :: "rat \<Rightarrow> int" where
  "round_half_even x =
     (let f = \<lfloor>x\<rfloor>; r = x - of_int f
      in if r < 1 / 2 then f else if 1 / 2 < r then f + 1 else if even f then f else f + 1)"

fun digits10 :: "nat \<Rightarrow> nat" where
  "digits10 n = (if n < 10 then 1 else Suc (digits10 (n div 10)))"

declare digits10.simps [simp del]

text \<open>
  \<open>adjusted x\<close> is \<open>Decimal.adjusted()\<close>: the exponent of the most significant digit of a
  non-zero \<open>x\<close>, that is the \<open>e\<close> with \<open>10^e \<le> |x| < 10^(e+1)\<close>.
\<close>

definition adjusted :: "decimal \<Rightarrow> int" where
  "adjusted x =
     (let a = \<bar>x\<bar>
      in if 1 \<le> a then int (digits10 (nat \<lfloor>a\<rfloor>)) - 1
         else - int (digits10 (nat (\<lceil>1 / a\<rceil> - 1))))"

definition scale10 :: "rat \<Rightarrow> int \<Rightarrow> rat" where
  "scale10 x k = (if 0 \<le> k then x * 10 ^ nat k else x / 10 ^ nat (- k))"

definition prec :: nat where
  "prec = 28"

text \<open>\<open>fix_prec\<close> is the rounding of a result to the precision of the context.\<close>

definition fix_prec :: "decimal \<Rightarrow> decimal" where
  "fix_prec x =
     (if x = 0 then 0
      else let s = adjusted x - (int prec - 1)
           in scale10 (of_int (round_half_even (scale10 x (- s)))) s)"

definition dec_add :: "decimal \<Rightarrow> decimal \<Rightarrow> decimal" where
  "dec_add x y = fix_prec (x + y)"

definition dec_sub :: "decimal \<Rightarrow> decimal \<Rightarrow> decimal" where
  "dec_sub x y = fix_prec (x - y)"

definition dec_neg :: "decimal \<Rightarrow> decimal" where
  "dec_neg x = fix_prec (- x)"

definition dec_abs :: "decimal \<Rightarrow> decimal" where
  "dec_abs x = fix_prec \<bar>x\<bar>"

definition dec_div :: "decimal \<Rightarrow> decimal \<Rightarrow> error + decimal" where
  "dec_div x y =
     (if y = 0 then (if x = 0 then Inl InvalidOperation else Inl DivisionByZero)
      else Inr (fix_prec (x / y)))"

text \<open>\<open>quantize x\<close> is \<open>x.quantize(Decimal("0.01"))\<close>.\<close>

definition quantize :: "decimal \<Rightarrow> error + decimal" where
  "quantize x =
     (let c = round_half_even (x * 100)
      in if 10 ^ prec \<le> \<bar>c\<bar> then Inl InvalidOperation else Inr (of_int c / 100))"

text \<open>\<open>sum(...)\<close> of Python over Decimals: starts from 0 and adds from the left.\<close>

definition dec_sum :: "decimal list \<Rightarrow> decimal" where
  "dec_sum xs = foldl dec_add 0 xs"

section \<open>Dates\<close>

text \<open>
  \<open>datetime.date\<close>: the constructor raises ValueError outside the years 1 to 9999, the
  months 1 to 12 and the days of the month; dates compare lexicographically, and the
  difference of two dates in days is the difference of their ordinals.
\<close>

record date =
  d_year :: int
  d_month :: int
  d_day :: int

definition is_leap :: "int \<Rightarrow> bool" where
  "is_leap y = (y mod 4 = 0 \<and> (y mod 100 \<noteq> 0 \<or> y mod 400 = 0))"

definition days_in_month :: "int \<Rightarrow> int \<Rightarrow> int" where
  "days_in_month y m =
     (if m = 2 then (if is_leap y then 29 else 28)
      else if m = 4 \<or> m = 6 \<or> m = 9 \<or> m = 11 then 30 else 31)"

definition valid_date :: "date \<Rightarrow> bool" where
  "valid_date d =
     (1 \<le> d_year d \<and> d_year d \<le> 9999 \<and> 1 \<le> d_month d \<and> d_month d \<le> 12 \<and>
      1 \<le> d_day d \<and> d_day d \<le> days_in_month (d_year d) (d_month d))"

definition date_ctor :: "int \<Rightarrow> int \<Rightarrow> int \<Rightarrow> error + date" where
  "date_ctor y m d =
     (if valid_date \<lparr>d_year = y, d_month = m, d_day = d\<rparr>
      then Inr \<lparr>d_year = y, d_month = m, d_day = d\<rparr> else Inl DateOutOfRange)"

definition date_lt :: "date \<Rightarrow> date \<Rightarrow> bool" where
  "date_lt a b =
     (d_year a < d_year b \<or>
      (d_year a = d_year b \<and>
       (d_month a < d_month b \<or> (d_month a = d_month b \<and> d_day a < d_day b))))"

definition date_le :: "date \<Rightarrow> date \<Rightarrow> bool" where
  "date_le a b = (date_lt a b \<or> a = b)"

definition days_before_year :: "int \<Rightarrow> int" where
  "days_before_year y = (y - 1) * 365 + (y - 1) div 4 - (y - 1) div 100 + (y - 1) div 400"

definition days_before_month :: "int \<Rightarrow> int \<Rightarrow> int" where
  "days_before_month y m = sum_list (map (days_in_month y) [1 .. m - 1])"

definition toordinal :: "date \<Rightarrow> int" where
  "toordinal d = days_before_year (d_year d) + days_before_month (d_year d) (d_month d) + d_day d"

section \<open>Entities (models.py)\<close>

datatype AccountType = BANK | CREDIT_CARD | CASH | ASSET

datatype CategoryType = INCOME | COGS | EXPENSE

datatype TransactionDirection = IN | OUT

datatype SpecialType =
    CAPITAL | LOAN_IN | TRANSFER_IN | TRANSFER_OUT | ASSET_PURCHASE
  | TAX_PAYMENT | LOAN_REPAYMENT | DRAWINGS | INCOME_TAX | PAYROLL_TAX

text \<open>
  The rows carry the columns that the report and validation services read; primary keys
  are \<open>biz_id\<close>, \<open>acc_id\<close>, \<open>cat_id\<close>, \<open>txn_id\<close> and \<open>line_id\<close>.
\<close>

record Business =
  biz_id :: int
  currency :: string

record Account =
  acc_id :: int
  acc_business_id :: int
  acc_name :: string
  acc_type :: AccountType
  opening_balance :: decimal

record Category =
  cat_id :: int
  cat_business_id :: int
  code :: string
  cat_type :: CategoryType

record TaxRate =
  rate :: decimal

record Transaction =
  txn_id :: int
  account_id :: int
  txn_date :: date
  direction :: TransactionDirection
  gross_amount :: decimal
  tax_amount :: decimal
  net_amount :: decimal
  is_reconciled :: bool

record TransactionLine =
  line_id :: int
  transaction_id :: int
  category_id :: "int option"
  special_type :: "SpecialType option"
  amount :: decimal

text \<open>The store that a SQLAlchemy session reads: one list of rows per table.\<close>

record db =
  businesses :: "Business list"
  accounts :: "Account list"
  categories :: "Category list"
  transactions :: "Transaction list"
  transaction_lines :: "TransactionLine list"

section \<open>Tax calculation (crud.py)\<close>

definition calculate_tax_amount :: "decimal \<Rightarrow> TaxRate option \<Rightarrow> error + decimal" where
  "calculate_tax_amount gross tax_rate =
     (case tax_rate of
        None \<Rightarrow> Inr 0
      | Some tr \<Rightarrow>
          if rate tr = 0 then Inr 0
          else (let divisor = dec_add 1 (rate tr)
                in case dec_div gross divisor of
                     Inl e \<Rightarrow> Inl e
                   | Inr tax \<Rightarrow> quantize tax))"

definition calculate_net_amount :: "decimal \<Rightarrow> decimal \<Rightarrow> decimal" where
  "calculate_net_amount gross tax = dec_sub gross tax"

text \<open>
  The tax split as \<open>create_transaction\<close> and \<open>update_transaction\<close> derive it for a
  transaction: \<open>tax_amount = calculate_tax_amount(gross, rate)\<close>, then
  \<open>net_amount = calculate_net_amount(gross, tax_amount)\<close>. The result is the pair
  (tax_amount, net_amount).
\<close>

definition tax_split :: "decimal \<Rightarrow> TaxRate option \<Rightarrow> error + (decimal \<times> decimal)" where
  "tax_split gross tax_rate =
     (case calculate_tax_amount gross tax_rate of
        Inl e \<Rightarrow> Inl e
      | Inr tax \<Rightarrow> Inr (tax, calculate_net_amount gross tax))"

section \<open>Queries\<close>

text \<open>
  \<open>query(TransactionLine).join(Transaction).join(Account).filter(...)\<close>: a line joins the
  transaction that its foreign key names and that transaction's account; a line without
  them is not in the join. \<open>date_ok\<close> stands for the filters on \<open>Transaction.date\<close> and
  \<open>line_ok\<close> for those on the line.
\<close>

definition line_txn :: "db \<Rightarrow> TransactionLine \<Rightarrow> Transaction option" where
  "line_txn s l = find (\<lambda>t. txn_id t = transaction_id l) (transactions s)"

definition txn_account :: "db \<Rightarrow> Transaction \<Rightarrow> Account option" where
  "txn_account s t = find (\<lambda>a. acc_id a = account_id t) (accounts s)"

definition txn_in_business :: "db \<Rightarrow> int \<Rightarrow> Transaction \<Rightarrow> bool" where
  "txn_in_business s business_id t =
     (case txn_account s t of None \<Rightarrow> False | Some a \<Rightarrow> acc_business_id a = business_id)"

definition query_txns :: "db \<Rightarrow> int \<Rightarrow> (date \<Rightarrow> bool) \<Rightarrow> Transaction list" where
  "query_txns s business_id date_ok =
     filter (\<lambda>t. txn_in_business s business_id t \<and> date_ok (txn_date t)) (transactions s)"

definition query_lines ::
  "db \<Rightarrow> int \<Rightarrow> (date \<Rightarrow> bool) \<Rightarrow> (TransactionLine \<Rightarrow> bool) \<Rightarrow> TransactionLine list" where
  "query_lines s business_id date_ok line_ok =
     filter (\<lambda>l. (case line_txn s l of
                     None \<Rightarrow> False
                   | Some t \<Rightarrow> txn_in_business s business_id t \<and> date_ok (txn_date t)) \<and>
                  line_ok l)
       (transaction_lines s)"

text \<open>
  The date window of a month as the services filter it: from the first of the month,
  up to but excluding the first of the next month, and for December up to and
  including the 31st.
\<close>

definition in_window :: "int \<Rightarrow> date \<Rightarrow> date \<Rightarrow> date \<Rightarrow> bool" where
  "in_window month start_date end_date d =
     (date_le start_date d \<and>
      (if month \<noteq> 12 then date_lt d end_date else date_le d end_date))"

definition month_end_date :: "int \<Rightarrow> int \<Rightarrow> error + date" where
  "month_end_date year month =
     (if month = 12 then date_ctor year 12 31 else date_ctor year (month + 1) 1)"

fun mapM_err :: "('a \<Rightarrow> error + 'b) \<Rightarrow> 'a list \<Rightarrow> error + 'b list" where
  "mapM_err f [] = Inr []"
| "mapM_err f (x # xs) =
     (case f x of
        Inl e \<Rightarrow> Inl e
      | Inr y \<Rightarrow> (case mapM_err f xs of Inl e \<Rightarrow> Inl e | Inr ys \<Rightarrow> Inr (y # ys)))"

section \<open>Profit and loss report (reports.py, PLReportService)\<close>

text \<open>
  A Python dict is an association list in insertion order; \<open>AList.update\<close> overwrites
  the value of a present key in place and appends an absent one. \<open>dict_add d k v\<close> is
  \<open>if k not in d: d[k] = Decimal("0.00")\<close> followed by \<open>d[k] += v\<close>.
\<close>

type_synonym by_category = "(string \<times> decimal) list"

definition dict_add :: "by_category \<Rightarrow> string \<Rightarrow> decimal \<Rightarrow> by_category" where
  "dict_add d k v =
     AList.update k (dec_add (case map_of d k of None \<Rightarrow> 0 | Some old \<Rightarrow> old) v) d"

record PLData =
  income_total :: decimal
  income_by_category :: by_category
  cogs_total :: decimal
  cogs_by_category :: by_category
  cogs_inventory_adjustment :: decimal
  expenses_total :: decimal
  expenses_by_category :: by_category
  gross_profit :: decimal
  net_profit :: decimal

record PLReport =
  pl_business_id :: int
  pl_year :: int
  pl_currency :: string
  pl_months :: "(int \<times> PLData) list"
  pl_ytd :: PLData

text \<open>\<open>next((c.code for c in cats if c.id == cid), "unknown")\<close>\<close>

definition cat_code_of :: "Category list \<Rightarrow> int \<Rightarrow> string" where
  "cat_code_of cats cid =
     (case find (\<lambda>c. cat_id c = cid) cats of Some c \<Rightarrow> code c | None \<Rightarrow> ''unknown'')"

text \<open>
  One pass of the three loops of \<open>_calculate_month\<close> (income, COGS, expenses). In the
  test \<open>line.category_id and line.category_id in cat_ids\<close> a missing identifier and the
  identifier 0 are both false.
\<close>

definition category_step ::
  "Category list \<Rightarrow> decimal \<times> by_category \<Rightarrow> TransactionLine \<Rightarrow> decimal \<times> by_category" where
  "category_step cats acc line =
     (case category_id line of
        None \<Rightarrow> acc
      | Some cid \<Rightarrow>
          if cid \<noteq> 0 \<and> cid \<in> set (map cat_id cats)
          then (dec_add (fst acc) (amount line),
                dict_add (snd acc) (cat_code_of cats cid) (amount line))
          else acc)"

text \<open>
  The body of \<open>_calculate_month\<close> after its query: the three loops over the lines of
  the month and the month structure that they fill.
\<close>

definition pl_month_of ::
  "TransactionLine list \<Rightarrow> Category list \<Rightarrow> Category list \<Rightarrow> Category list \<Rightarrow> PLData" where
  "pl_month_of lines income_cats cogs_cats expense_cats =
     (let income = foldl (category_step income_cats) (0, []) lines;
          cogs = foldl (category_step cogs_cats) (0, []) lines;
          inventory_adjustment = 0;
          cogs_total' = dec_add (fst cogs) inventory_adjustment;
          expenses = foldl (category_step expense_cats) (0, []) lines;
          gross_profit' = dec_sub (fst income) cogs_total';
          net_profit' = dec_sub gross_profit' (fst expenses)
      in \<lparr>income_total = fst income,
          income_by_category = snd income,
          cogs_total = cogs_total',
          cogs_by_category = snd cogs,
          cogs_inventory_adjustment = inventory_adjustment,
          expenses_total = fst expenses,
          expenses_by_category = snd expenses,
          gross_profit = gross_profit',
          net_profit = net_profit'\<rparr>)"

definition PL_calculate_month ::
  "db \<Rightarrow> int \<Rightarrow> int \<Rightarrow> int \<Rightarrow> Category list \<Rightarrow> Category list \<Rightarrow> Category list
     \<Rightarrow> error + PLData" where
  "PL_calculate_month s business_id year month income_cats cogs_cats expense_cats =
     (case date_ctor year month 1 of
        Inl e \<Rightarrow> Inl e
      | Inr start_date \<Rightarrow>
     (case month_end_date year month of
        Inl e \<Rightarrow> Inl e
      | Inr end_date \<Rightarrow>
          (let lines = query_lines s business_id (in_window month start_date end_date)
                         (\<lambda>l. True)
           in Inr (pl_month_of lines income_cats cogs_cats expense_cats))))"

definition merge_items :: "by_category \<Rightarrow> by_category \<Rightarrow> by_category" where
  "merge_items d items = foldl (\<lambda>d' (cat_code, v). dict_add d' cat_code v) d items"

definition ytd_step :: "PLData \<Rightarrow> PLData \<Rightarrow> PLData" where
  "ytd_step ytd month_data =
     \<lparr>income_total = dec_add (income_total ytd) (income_total month_data),
      income_by_category = merge_items (income_by_category ytd) (income_by_category month_data),
      cogs_total = dec_add (cogs_total ytd) (cogs_total month_data),
      cogs_by_category = merge_items (cogs_by_category ytd) (cogs_by_category month_data),
      cogs_inventory_adjustment =
        dec_add (cogs_inventory_adjustment ytd) (cogs_inventory_adjustment month_data),
      expenses_total = dec_add (expenses_total ytd) (expenses_total month_data),
      expenses_by_category =
        merge_items (expenses_by_category ytd) (expenses_by_category month_data),
      gross_profit = dec_add (gross_profit ytd) (gross_profit month_data),
      net_profit = dec_add (net_profit ytd) (net_profit month_data)\<rparr>"

definition ytd_zero :: PLData where
  "ytd_zero =
     \<lparr>income_total = 0, income_by_category = [], cogs_total = 0, cogs_by_category = [],
      cogs_inventory_adjustment = 0, expenses_total = 0, expenses_by_category = [],
      gross_profit = 0, net_profit = 0\<rparr>"

definition PL_calculate_ytd :: "(int \<times> PLData) list \<Rightarrow> PLData" where
  "PL_calculate_ytd months_data = foldl ytd_step ytd_zero (map snd months_data)"

definition cats_of_type :: "db \<Rightarrow> int \<Rightarrow> CategoryType \<Rightarrow> Category list" where
  "cats_of_type s business_id ty =
     filter (\<lambda>c. cat_type c = ty)
       (filter (\<lambda>c. cat_business_id c = business_id) (categories s))"

definition PL_generate_report :: "db \<Rightarrow> int \<Rightarrow> int \<Rightarrow> error + PLReport" where
  "PL_generate_report s business_id year =
     (let income_cats = cats_of_type s business_id INCOME;
          cogs_cats = cats_of_type s business_id COGS;
          expense_cats = cats_of_type s business_id EXPENSE
      in case mapM_err
                (\<lambda>month.
                   case PL_calculate_month s business_id year month
                          income_cats cogs_cats expense_cats of
                     Inl e \<Rightarrow> Inl e
                   | Inr month_data \<Rightarrow> Inr (month, month_data))
                [1 .. 12] of
           Inl e \<Rightarrow> Inl e
         | Inr months \<Rightarrow>
             Inr \<lparr>pl_business_id = business_id, pl_year = year, pl_currency = ''CHF'',
                  pl_months = months, pl_ytd = PL_calculate_ytd months\<rparr>)"


section \<open>Balance sheet report (reports.py, BalanceSheetService)\<close>

record BankEntry =
  be_id :: int
  be_name :: string
  be_balance :: decimal

record CreditCardEntry =
  cc_id :: int
  cc_name :: string
  cc_balance :: decimal
  cc_liability :: decimal

record BSData =
  as_of :: date
  assets_total :: decimal
  bank_total :: decimal
  bank_accounts :: "BankEntry list"
  inventory :: decimal
  asset_purchases :: decimal
  liabilities_total :: decimal
  credit_cards_total :: decimal
  credit_cards :: "CreditCardEntry list"
  loans_received :: decimal
  loans_repayments :: decimal
  loans_net :: decimal
  vat :: decimal
  income_tax :: decimal
  payroll_tax :: decimal
  tax_payable_total :: decimal
  equity_total :: decimal
  capital :: decimal
  retained_earnings :: decimal
  current_year_profit :: decimal
  drawings :: decimal

record BSValidation =
  v_net_assets :: decimal
  v_equity :: decimal
  v_balanced :: bool

record BSReport =
  bs_business_id :: int
  bs_year :: int
  bs_currency :: string
  bs_months :: "(int \<times> BSData) list"
  bs_validation :: "(int \<times> BSValidation) list"

definition business_accounts :: "db \<Rightarrow> int \<Rightarrow> Account list" where
  "business_accounts s business_id =
     filter (\<lambda>a. acc_business_id a = business_id) (accounts s)"

definition calculate_opening_retained_earnings :: "db \<Rightarrow> int \<Rightarrow> int \<Rightarrow> decimal" where
  "calculate_opening_retained_earnings s business_id year =
     foldl (\<lambda>total_opening account.
              if acc_type account = BANK then dec_add total_opening (opening_balance account)
              else if acc_type account = CREDIT_CARD
              then dec_sub total_opening (opening_balance account)
              else total_opening)
       0 (business_accounts s business_id)"

text \<open>
  The balance of one account as of a date: the loop that \<open>_calculate_snapshot\<close> runs for
  every bank account and again for every credit-card account.
\<close>

definition account_balance :: "db \<Rightarrow> Account \<Rightarrow> date \<Rightarrow> decimal" where
  "account_balance s account as_of_date =
     foldl (\<lambda>balance txn.
              if direction txn = IN then dec_add balance (gross_amount txn)
              else dec_sub balance (gross_amount txn))
       (opening_balance account)
       (filter (\<lambda>t. account_id t = acc_id account \<and> date_le (txn_date t) as_of_date)
          (transactions s))"

definition bank_step :: "db \<Rightarrow> date \<Rightarrow> decimal \<times> BankEntry list \<Rightarrow> Account
    \<Rightarrow> decimal \<times> BankEntry list" where
  "bank_step s as_of_date acc account =
     (if acc_type account = BANK
      then (let balance = account_balance s account as_of_date
            in (dec_add (fst acc) balance,
                snd acc @ [\<lparr>be_id = acc_id account, be_name = acc_name account,
                            be_balance = balance\<rparr>]))
      else acc)"

definition credit_card_step :: "db \<Rightarrow> date \<Rightarrow> decimal \<times> CreditCardEntry list \<Rightarrow> Account
    \<Rightarrow> decimal \<times> CreditCardEntry list" where
  "credit_card_step s as_of_date acc account =
     (if acc_type account = CREDIT_CARD
      then (let balance = account_balance s account as_of_date;
                credit_card_balance = (if balance < 0 then dec_neg balance else 0)
            in (credit_card_balance,
                snd acc @ [\<lparr>cc_id = acc_id account, cc_name = acc_name account,
                            cc_balance = balance,
                            cc_liability =
                              (if balance < 0 then credit_card_balance else 0)\<rparr>]))
      else acc)"

text \<open>The sum of the lines of one special type up to a date.\<close>

definition special_total :: "db \<Rightarrow> int \<Rightarrow> date \<Rightarrow> SpecialType \<Rightarrow> decimal" where
  "special_total s business_id as_of_date st =
     foldl (\<lambda>total line. dec_add total (amount line)) 0
       (query_lines s business_id (\<lambda>d. date_le d as_of_date)
          (\<lambda>l. special_type l = Some st))"

definition tax_step :: "decimal \<times> decimal \<Rightarrow> Transaction \<Rightarrow> decimal \<times> decimal" where
  "tax_step acc txn =
     (if direction txn = IN then (dec_add (fst acc) (tax_amount txn), snd acc)
      else (fst acc, dec_add (snd acc) (tax_amount txn)))"

definition profit_step :: "int list \<Rightarrow> int list \<Rightarrow> int list
    \<Rightarrow> decimal \<times> decimal \<times> decimal \<Rightarrow> TransactionLine \<Rightarrow> decimal \<times> decimal \<times> decimal" where
  "profit_step income_cats cogs_cats expense_cats acc line =
     (case acc of (income, cogs, expenses) \<Rightarrow>
        (case category_id line of
           None \<Rightarrow> acc
         | Some cid \<Rightarrow>
             if cid = 0 then acc
             else if cid \<in> set income_cats then (dec_add income (amount line), cogs, expenses)
             else if cid \<in> set cogs_cats then (income, dec_add cogs (amount line), expenses)
             else if cid \<in> set expense_cats
             then (income, cogs, dec_add expenses (amount line))
             else acc))"

definition calculate_net_profit_ytd :: "db \<Rightarrow> int \<Rightarrow> int \<Rightarrow> date \<Rightarrow> error + decimal" where
  "calculate_net_profit_ytd s business_id year as_of_date =
     (case date_ctor year 1 1 of
        Inl e \<Rightarrow> Inl e
      | Inr start_date \<Rightarrow>
          (let income_cats = map cat_id (cats_of_type s business_id INCOME);
               cogs_cats = map cat_id (cats_of_type s business_id COGS);
               expense_cats = map cat_id (cats_of_type s business_id EXPENSE);
               lines = query_lines s business_id
                         (\<lambda>d. date_le start_date d \<and> date_le d as_of_date) (\<lambda>l. True)
           in case foldl (profit_step income_cats cogs_cats expense_cats) (0, 0, 0) lines of
                (income, cogs, expenses) \<Rightarrow> Inr (dec_sub (dec_sub income cogs) expenses)))"

definition calculate_snapshot ::
  "db \<Rightarrow> int \<Rightarrow> int \<Rightarrow> int \<Rightarrow> date \<Rightarrow> decimal \<Rightarrow> error + BSData" where
  "calculate_snapshot s business_id year month as_of_date opening_retained_earnings =
     (let accts = business_accounts s business_id;
          bank = foldl (bank_step s as_of_date) (0, []) accts;
          bank_balance = fst bank;
          inventory_value = 0;
          asset_purchases' = special_total s business_id as_of_date ASSET_PURCHASE;
          total_assets = dec_add (dec_add bank_balance inventory_value) asset_purchases';
          cards = foldl (credit_card_step s as_of_date) (0, []) accts;
          credit_card_balance = fst cards;
          loans = special_total s business_id as_of_date LOAN_IN;
          loan_repayments = special_total s business_id as_of_date LOAN_REPAYMENT;
          net_loans = dec_sub loans loan_repayments;
          taxes = foldl tax_step (0, 0)
                    (query_txns s business_id (\<lambda>d. date_le d as_of_date));
          tax_collected = fst taxes;
          tax_paid = foldl (\<lambda>paid line. dec_add paid (amount line)) (snd taxes)
                       (query_lines s business_id (\<lambda>d. date_le d as_of_date)
                          (\<lambda>l. special_type l = Some TAX_PAYMENT));
          tax_payable0 = dec_sub tax_collected tax_paid;
          tax_payable = (if tax_payable0 < 0 then 0 else tax_payable0);
          income_tax_paid = special_total s business_id as_of_date INCOME_TAX;
          payroll_tax_paid = special_total s business_id as_of_date PAYROLL_TAX;
          total_liabilities =
            dec_add (dec_add (dec_add (dec_add credit_card_balance net_loans) tax_payable)
                       income_tax_paid) payroll_tax_paid;
          capital' = special_total s business_id as_of_date CAPITAL;
          drawings' = special_total s business_id as_of_date DRAWINGS
      in case calculate_net_profit_ytd s business_id year as_of_date of
           Inl e \<Rightarrow> Inl e
         | Inr current_year_profit' \<Rightarrow>
             (let retained_earnings' = dec_add opening_retained_earnings current_year_profit';
                  total_equity = dec_sub (dec_add capital' retained_earnings') drawings'
              in Inr \<lparr>as_of = as_of_date,
                      assets_total = total_assets,
                      bank_total = bank_balance,
                      bank_accounts = snd bank,
                      inventory = inventory_value,
                      asset_purchases = asset_purchases',
                      liabilities_total = total_liabilities,
                      credit_cards_total = credit_card_balance,
                      credit_cards = snd cards,
                      loans_received = loans,
                      loans_repayments = loan_repayments,
                      loans_net = net_loans,
                      vat = tax_payable,
                      income_tax = income_tax_paid,
                      payroll_tax = payroll_tax_paid,
                      tax_payable_total =
                        dec_add (dec_add tax_payable income_tax_paid) payroll_tax_paid,
                      equity_total = total_equity,
                      capital = capital',
                      retained_earnings = retained_earnings',
                      current_year_profit = current_year_profit',
                      drawings = drawings'\<rparr>))"

text \<open>The as-of date of a month: its last day, as \<open>generate_report\<close> computes it.\<close>

definition month_as_of_date :: "int \<Rightarrow> int \<Rightarrow> error + date" where
  "month_as_of_date year month =
     (case date_ctor year month 1 of
        Inl e \<Rightarrow> Inl e
      | Inr first_day \<Rightarrow>
          if month = 12 then date_ctor year 12 31
          else if month \<in> {1, 3, 5, 7, 8, 10, 12} then date_ctor year month 31
          else if month = 2
          then (if (year mod 4 = 0 \<and> year mod 100 \<noteq> 0) \<or> year mod 400 = 0
                then date_ctor year month 29 else date_ctor year month 28)
          else date_ctor year month 30)"

definition validation_entry :: "BSData \<Rightarrow> BSValidation" where
  "validation_entry data =
     (let net_assets = dec_sub (assets_total data) (liabilities_total data);
          equity = equity_total data
      in \<lparr>v_net_assets = net_assets, v_equity = equity, v_balanced = (net_assets = equity)\<rparr>)"

definition BS_generate_report :: "db \<Rightarrow> int \<Rightarrow> int \<Rightarrow> error + BSReport" where
  "BS_generate_report s business_id year =
     (case find (\<lambda>b. biz_id b = business_id) (businesses s) of
        None \<Rightarrow> Inl (BusinessNotFound business_id)
      | Some business \<Rightarrow>
          (let opening_retained_earnings =
                 calculate_opening_retained_earnings s business_id year
           in case mapM_err
                     (\<lambda>month.
                        case month_as_of_date year month of
                          Inl e \<Rightarrow> Inl e
                        | Inr as_of_date \<Rightarrow>
                            (case calculate_snapshot s business_id year month as_of_date
                                    opening_retained_earnings of
                               Inl e \<Rightarrow> Inl e
                             | Inr month_data \<Rightarrow> Inr (month, month_data)))
                     [1 .. 12] of
                Inl e \<Rightarrow> Inl e
              | Inr months \<Rightarrow>
                  Inr \<lparr>bs_business_id = business_id, bs_year = year,
                       bs_currency = currency business, bs_months = months,
                       bs_validation =
                         map (\<lambda>(month, data). (month, validation_entry data)) months\<rparr>))"

section \<open>Transfer validation (validation.py, TransferValidationService)\<close>

record TransferEntry =
  te_transaction_id :: int
  te_line_id :: int
  te_amount :: decimal

record MonthTransfers =
  mt_month :: int
  is_balanced :: bool
  total_transfers_out :: decimal
  total_transfers_in :: decimal
  difference :: decimal
  transfers_out_count :: nat
  transfers_in_count :: nat
  transfers_out :: "TransferEntry list"
  transfers_in :: "TransferEntry list"

definition transfer_entry :: "TransactionLine \<Rightarrow> TransferEntry" where
  "transfer_entry line =
     \<lparr>te_transaction_id = transaction_id line, te_line_id = line_id line,
      te_amount = amount line\<rparr>"

definition transfer_step ::
  "decimal \<times> decimal \<times> TransferEntry list \<times> TransferEntry list \<Rightarrow> TransactionLine
     \<Rightarrow> decimal \<times> decimal \<times> TransferEntry list \<times> TransferEntry list" where
  "transfer_step acc line =
     (case acc of (total_out, total_in, outs, ins) \<Rightarrow>
        if special_type line = Some TRANSFER_OUT
        then (dec_add total_out (amount line), total_in, outs @ [transfer_entry line], ins)
        else if special_type line = Some TRANSFER_IN
        then (total_out, dec_add total_in (amount line), outs, ins @ [transfer_entry line])
        else acc)"

text \<open>
  The service works on a session. \<open>session_all q\<close> is \<open>query(...).all()\<close>: it returns the
  rows that the query selects and the store as the call leaves it. The validation
  functions thread the store through their calls and return it with their result.
\<close>

definition session_all :: "(db \<Rightarrow> 'a list) \<Rightarrow> db \<Rightarrow> 'a list \<times> db" where
  "session_all q s = (q s, s)"

definition validate_month ::
  "int \<Rightarrow> int \<Rightarrow> int \<Rightarrow> db \<Rightarrow> (error + MonthTransfers) \<times> db" where
  "validate_month business_id year month s =
     (case date_ctor year month 1 of
        Inl e \<Rightarrow> (Inl e, s)
      | Inr start_date \<Rightarrow>
     (case month_end_date year month of
        Inl e \<Rightarrow> (Inl e, s)
      | Inr end_date \<Rightarrow>
          (case session_all
                  (\<lambda>s'. query_lines s' business_id (in_window month start_date end_date)
                          (\<lambda>l. special_type l \<in> {Some TRANSFER_IN, Some TRANSFER_OUT})) s of
             (transfer_lines, s1) \<Rightarrow>
               (case foldl transfer_step (0, 0, [], []) transfer_lines of
                  (total_out, total_in, outs, ins) \<Rightarrow>
                    (let difference' = dec_sub total_out total_in;
                         is_balanced' = (difference' = 0)
                     in (Inr \<lparr>mt_month = month,
                              is_balanced = is_balanced',
                              total_transfers_out = total_out,
                              total_transfers_in = total_in,
                              difference = difference',
                              transfers_out_count = length outs,
                              transfers_in_count = length ins,
                              transfers_out = outs,
                              transfers_in = ins\<rparr>, s1))))))"

section \<open>Transaction validation (validation.py, ErrorHighlightingService)\<close>

datatype ValidationSeverity = ERROR | WARNING | INFO

datatype ValidationErrorType =
    MISSING_ALLOCATION | ALLOCATION_MISMATCH | UNBALANCED_TRANSFER
  | MISSING_TAX_RATE | UNRECONCILED_TRANSACTION

text \<open>
  A finding is the dict that a check returns. Its common keys are fields; the keys that
  only one check sets are the \<open>detail\<close>: expected net, allocated total and difference of a
  mismatch, the transfer type of a transfer, the age in days of an unreconciled
  transaction. Dates and amounts stand for their renderings (\<open>isoformat\<close>, \<open>str\<close>), and
  the message, a rendering of the same values, is left out.
\<close>

datatype FindingDetail =
    NoDetail
  | MismatchDetail decimal decimal decimal
  | TransferDetail SpecialType
  | UnreconciledDetail int

record Finding =
  f_transaction_id :: int
  f_account_id :: int
  f_date :: date
  f_gross_amount :: decimal
  f_error_type :: ValidationErrorType
  f_severity :: ValidationSeverity
  f_detail :: FindingDetail

record TransactionValidation =
  tv_business_id :: int
  tv_year :: "int option"
  tv_month :: "int option"
  total_transactions_checked :: nat
  error_count :: nat
  warning_count :: nat
  errors :: "Finding list"
  warnings :: "Finding list"

text \<open>\<open>txn.lines\<close>: the lines whose foreign key is the transaction.\<close>

definition txn_lines :: "db \<Rightarrow> Transaction \<Rightarrow> TransactionLine list" where
  "txn_lines s txn = filter (\<lambda>l. transaction_id l = txn_id txn) (transaction_lines s)"

definition finding :: "Transaction \<Rightarrow> ValidationErrorType \<Rightarrow> ValidationSeverity
    \<Rightarrow> FindingDetail \<Rightarrow> Finding" where
  "finding txn ty sev det =
     \<lparr>f_transaction_id = txn_id txn, f_account_id = account_id txn, f_date = txn_date txn,
      f_gross_amount = gross_amount txn, f_error_type = ty, f_severity = sev,
      f_detail = det\<rparr>"

definition check_missing_allocation :: "db \<Rightarrow> Transaction \<Rightarrow> Finding option" where
  "check_missing_allocation s txn =
     (if txn_lines s txn = [] \<or> length (txn_lines s txn) = 0
      then Some (finding txn MISSING_ALLOCATION ERROR NoDetail)
      else None)"

definition check_allocation_mismatch :: "db \<Rightarrow> Transaction \<Rightarrow> Finding option" where
  "check_allocation_mismatch s txn =
     (if txn_lines s txn = [] then None
      else (let total_allocated = dec_sum (map amount (txn_lines s txn));
                expected_amount =
                  (if net_amount txn \<noteq> 0 then net_amount txn
                   else dec_sub (gross_amount txn) (tax_amount txn))
            in if dec_abs (dec_sub total_allocated expected_amount) > 1 / 100
               then Some (finding txn ALLOCATION_MISMATCH ERROR
                            (MismatchDetail expected_amount total_allocated
                               (dec_abs (dec_sub total_allocated expected_amount))))
               else None))"

definition check_transfer_balance :: "db \<Rightarrow> Transaction \<Rightarrow> Finding option" where
  "check_transfer_balance s txn =
     (let transfer_lines =
            filter (\<lambda>line. special_type line \<in> {Some TRANSFER_IN, Some TRANSFER_OUT})
              (txn_lines s txn)
      in case transfer_lines of
           [] \<Rightarrow> None
         | first_line # other_lines \<Rightarrow>
             if length transfer_lines = length (txn_lines s txn)
             then (case special_type first_line of
                     Some st \<Rightarrow> Some (finding txn UNBALANCED_TRANSFER WARNING (TransferDetail st))
                   | None \<Rightarrow> None)
             else None)"

text \<open>
  \<open>_check_unreconciled_transaction\<close> reads the current date from the system clock
  (\<open>datetime.date.today()\<close>); \<open>today\<close> is that reading.
\<close>

definition check_unreconciled_transaction :: "date \<Rightarrow> Transaction \<Rightarrow> Finding option" where
  "check_unreconciled_transaction today txn =
     (if \<not> is_reconciled txn
      then (let days_old = toordinal today - toordinal (txn_date txn)
            in if days_old > 30
               then Some (finding txn UNRECONCILED_TRANSACTION WARNING
                            (UnreconciledDetail days_old))
               else None)
      else None)"

definition opt_list :: "'a option \<Rightarrow> 'a list" where
  "opt_list x = (case x of None \<Rightarrow> [] | Some y \<Rightarrow> [y])"

definition validate_step :: "date \<Rightarrow> db \<Rightarrow> Finding list \<times> Finding list \<Rightarrow> Transaction
    \<Rightarrow> Finding list \<times> Finding list" where
  "validate_step today s acc txn =
     (fst acc @ opt_list (check_missing_allocation s txn)
            @ opt_list (check_allocation_mismatch s txn),
      snd acc @ opt_list (check_transfer_balance s txn)
            @ opt_list (check_unreconciled_transaction today txn))"

text \<open>An optional integer argument is true in Python when it is given and not 0.\<close>

definition truthy :: "int option \<Rightarrow> bool" where
  "truthy x = (case x of None \<Rightarrow> False | Some v \<Rightarrow> v \<noteq> 0)"

definition validation_scope :: "db \<Rightarrow> int \<Rightarrow> int option \<Rightarrow> int option \<Rightarrow> Transaction list" where
  "validation_scope s business_id year month =
     (let q0 = query_txns s business_id (\<lambda>d. True);
          q1 = (if truthy year then filter (\<lambda>t. Some (d_year (txn_date t)) = year) q0 else q0);
          q2 = (if truthy month \<and> truthy year
                then filter (\<lambda>t. Some (d_month (txn_date t)) = month) q1 else q1)
      in q2)"

definition validate_transactions ::
  "date \<Rightarrow> db \<Rightarrow> int \<Rightarrow> int option \<Rightarrow> int option \<Rightarrow> TransactionValidation" where
  "validate_transactions today s business_id year month =
     (let txns = validation_scope s business_id year month;
          found = foldl (validate_step today s) ([], []) txns
      in \<lparr>tv_business_id = business_id, tv_year = year, tv_month = month,
          total_transactions_checked = length txns,
          error_count = length (fst found),
          warning_count = length (snd found),
          errors = fst found,
          warnings = snd found\<rparr>)"

section \<open>Reference notions of the specification\<close>

text \<open>
  The domain of the stored amounts and rates: an amount is a \<open>Numeric(15, 2)\<close>, a value
  with two decimal places below \<open>10^13\<close> in magnitude; a rate is a \<open>Numeric(5, 4)\<close> in
  [0, 1), a value with four decimal places.
\<close>

definition is_cents :: "decimal \<Rightarrow> bool" where
  "is_cents x = (of_int \<lfloor>x * 100\<rfloor> = x * 100)"

definition is_money :: "decimal \<Rightarrow> bool" where
  "is_money x = (is_cents x \<and> \<bar>x\<bar> < 10 ^ 13)"

definition is_rate :: "decimal \<Rightarrow> bool" where
  "is_rate r = (of_int \<lfloor>r * 10000\<rfloor> = r * 10000 \<and> 0 \<le> r \<and> r < 1)"

text \<open>
  A ledger whose sums are exact: every line amount has two decimal places, and the
  magnitudes of all line amounts together stay below \<open>10^24\<close>. With amounts of the
  domain this holds for every ledger of fewer than \<open>10^11\<close> lines; it keeps each sum
  that the reports form within the 28 digits of the decimal context.
\<close>

definition amounts_in_range :: "db \<Rightarrow> bool" where
  "amounts_in_range s =
     ((\<forall>l\<in>set (transaction_lines s). is_cents (amount l)) \<and>
      sum_list (map (\<lambda>l. \<bar>amount l\<bar>) (transaction_lines s)) < 10 ^ 24)"

text \<open>
  Rounding half up (ROUND_HALF_UP: a tie goes away from zero) to two decimal places.
\<close>

definition round_half_up :: "rat \<Rightarrow> int" where
  "round_half_up x = (if 0 \<le> x then \<lfloor>x + 1 / 2\<rfloor> else - \<lfloor>- x + 1 / 2\<rfloor>)"

definition round2_half_up :: "rat \<Rightarrow> rat" where
  "round2_half_up x = of_int (round_half_up (x * 100)) / 100"

text \<open>Rounding half even to two decimal places, on the exact value.\<close>

definition round2_half_even :: "rat \<Rightarrow> rat" where
  "round2_half_even x = of_int (round_half_even (x * 100)) / 100"

text \<open>
  The lines of a calendar month: the lines of one special type whose transaction
  belongs to the business and is dated in the given month of the given year.
\<close>

definition in_month :: "int \<Rightarrow> int \<Rightarrow> date \<Rightarrow> bool" where
  "in_month year month d = (d_year d = year \<and> d_month d = month)"

definition month_transfer_lines ::
  "db \<Rightarrow> int \<Rightarrow> int \<Rightarrow> int \<Rightarrow> SpecialType \<Rightarrow> TransactionLine list" where
  "month_transfer_lines s business_id year month st =
     query_lines s business_id (in_month year month) (\<lambda>l. special_type l = Some st)"

text \<open>
  The profit and loss report by category type: the total and the per-category map of
  one type in a monthly or year-to-date structure, the amount of a category code in
  it (0 when the code is absent), and the activity of a category in a month, that is
  the lines of the business dated in the month that are allocated to the category.
\<close>

definition total_of :: "CategoryType \<Rightarrow> PLData \<Rightarrow> decimal" where
  "total_of ty d =
     (case ty of INCOME \<Rightarrow> income_total d | COGS \<Rightarrow> cogs_total d
      | EXPENSE \<Rightarrow> expenses_total d)"

definition by_category_of :: "CategoryType \<Rightarrow> PLData \<Rightarrow> by_category" where
  "by_category_of ty d =
     (case ty of INCOME \<Rightarrow> income_by_category d | COGS \<Rightarrow> cogs_by_category d
      | EXPENSE \<Rightarrow> expenses_by_category d)"

definition amount_of :: "CategoryType \<Rightarrow> string \<Rightarrow> PLData \<Rightarrow> decimal" where
  "amount_of ty k d = (case map_of (by_category_of ty d) k of None \<Rightarrow> 0 | Some v \<Rightarrow> v)"

definition category_lines ::
  "db \<Rightarrow> int \<Rightarrow> int \<Rightarrow> int \<Rightarrow> Category \<Rightarrow> TransactionLine list" where
  "category_lines s business_id year month c =
     query_lines s business_id (in_month year month) (\<lambda>l. category_id l = Some (cat_id c))"

text \<open>
  Auxiliary notions for the profit and loss report: the lines that one pass of
  \<open>_calculate_month\<close> counts (those allocated to a category of the given list), the
  lines it books under one category code, and the category list of a type.
\<close>

definition allocated :: "Category list \<Rightarrow> TransactionLine \<Rightarrow> bool" where
  "allocated cats l =
     (case category_id l of
        None \<Rightarrow> False
      | Some cid \<Rightarrow> cid \<noteq> 0 \<and> cid \<in> set (map cat_id cats))"

definition allocated_to :: "Category list \<Rightarrow> string \<Rightarrow> TransactionLine \<Rightarrow> bool" where
  "allocated_to cats k l =
     (case category_id l of
        None \<Rightarrow> False
      | Some cid \<Rightarrow> cid \<noteq> 0 \<and> cid \<in> set (map cat_id cats) \<and> cat_code_of cats cid = k)"

definition cats_for :: "CategoryType \<Rightarrow> Category list \<Rightarrow> Category list \<Rightarrow> Category list
    \<Rightarrow> Category list" where
  "cats_for ty income_cats cogs_cats expense_cats =
     (case ty of INCOME \<Rightarrow> income_cats | COGS \<Rightarrow> cogs_cats | EXPENSE \<Rightarrow> expense_cats)"

text \<open>The values that the months hold for a category code, in the order of the months.\<close>

definition month_values :: "CategoryType \<Rightarrow> string \<Rightarrow> PLData list \<Rightarrow> decimal list" where
  "month_values ty k ds = List.map_filter (\<lambda>d. map_of (by_category_of ty d) k) ds"

text \<open>
  The credit-card liability as the specification defines it: over all credit-card
  accounts of the business, the sum of the negative as-of-date balances as positive
  magnitudes, an account with a non-negative balance contributing zero.
\<close>

definition credit_card_liabilities :: "db \<Rightarrow> int \<Rightarrow> date \<Rightarrow> decimal" where
  "credit_card_liabilities s business_id as_of_date =
     sum_list
       (map (\<lambda>a. if account_balance s a as_of_date < 0
                  then - account_balance s a as_of_date else 0)
          (filter (\<lambda>a. acc_type a = CREDIT_CARD) (business_accounts s business_id)))"

text \<open>
  The snapshot of a month of the balance-sheet report: \<open>_calculate_snapshot\<close> as of the
  last calendar day of the month, with the opening retained earnings of the business.
\<close>

definition last_day :: "int \<Rightarrow> int \<Rightarrow> date" where
  "last_day year month = \<lparr>d_year = year, d_month = month, d_day = days_in_month year month\<rparr>"

definition month_snapshot :: "db \<Rightarrow> int \<Rightarrow> int \<Rightarrow> int \<Rightarrow> error + BSData" where
  "month_snapshot s business_id year month =
     calculate_snapshot s business_id year month (last_day year month)
       (calculate_opening_retained_earnings s business_id year)"

text \<open>The validation entry of a month in the result of the balance-sheet report.\<close>

definition month_validation :: "error + BSReport \<Rightarrow> int \<Rightarrow> BSValidation option" where
  "month_validation r month =
     (case r of Inl e \<Rightarrow> None | Inr report \<Rightarrow> map_of (bs_validation report) month)"

text \<open>The findings of a list that are about one transaction.\<close>

definition findings_for :: "int \<Rightarrow> Finding list \<Rightarrow> Finding list" where
  "findings_for tid fs = filter (\<lambda>f. f_transaction_id f = tid) fs"

section \<open>Example ledgers\<close>

definition ledger_empty :: db where
  "ledger_empty =
     \<lparr>businesses = [], accounts = [], categories = [], transactions = [],
      transaction_lines = []\<rparr>"

text \<open>
  Scenario 5 of the specification: 2000.00 leave bank account A as TRANSFER_OUT and
  1500.00 reach bank account B as TRANSFER_IN on the same day.
\<close>

definition ledger_transfers :: db where
  "ledger_transfers =
     \<lparr>businesses = [\<lparr>biz_id = 1, currency = ''CHF''\<rparr>],
      accounts =
        [\<lparr>acc_id = 1, acc_business_id = 1, acc_name = ''A'', acc_type = BANK,
          opening_balance = 0\<rparr>,
         \<lparr>acc_id = 2, acc_business_id = 1, acc_name = ''B'', acc_type = BANK,
          opening_balance = 0\<rparr>],
      categories = [],
      transactions =
        [\<lparr>txn_id = 1, account_id = 1,
          txn_date = \<lparr>d_year = 2026, d_month = 3, d_day = 10\<rparr>, direction = OUT,
          gross_amount = 2000, tax_amount = 0, net_amount = 2000, is_reconciled = False\<rparr>,
         \<lparr>txn_id = 2, account_id = 2,
          txn_date = \<lparr>d_year = 2026, d_month = 3, d_day = 10\<rparr>, direction = IN,
          gross_amount = 1500, tax_amount = 0, net_amount = 1500, is_reconciled = False\<rparr>],
      transaction_lines =
        [\<lparr>line_id = 1, transaction_id = 1, category_id = None,
          special_type = Some TRANSFER_OUT, amount = 2000\<rparr>,
         \<lparr>line_id = 2, transaction_id = 2, category_id = None,
          special_type = Some TRANSFER_IN, amount = 1500\<rparr>]\<rparr>"

text \<open>
  Two credit cards; 100.00 are spent with the first one on an expense, the second one
  is unused.
\<close>

definition ledger_cards :: db where
  "ledger_cards =
     \<lparr>businesses = [\<lparr>biz_id = 1, currency = ''CHF''\<rparr>],
      accounts =
        [\<lparr>acc_id = 1, acc_business_id = 1, acc_name = ''Card 1'', acc_type = CREDIT_CARD,
          opening_balance = 0\<rparr>,
         \<lparr>acc_id = 2, acc_business_id = 1, acc_name = ''Card 2'', acc_type = CREDIT_CARD,
          opening_balance = 0\<rparr>],
      categories =
        [\<lparr>cat_id = 12, cat_business_id = 1, code = ''head_12'', cat_type = EXPENSE\<rparr>],
      transactions =
        [\<lparr>txn_id = 1, account_id = 1,
          txn_date = \<lparr>d_year = 2026, d_month = 1, d_day = 10\<rparr>, direction = OUT,
          gross_amount = 100, tax_amount = 0, net_amount = 100, is_reconciled = True\<rparr>],
      transaction_lines =
        [\<lparr>line_id = 1, transaction_id = 1, category_id = Some 12, special_type = None,
          amount = 100\<rparr>]\<rparr>"

text \<open>
  Scenario 3 of the specification: in January an income of net 100.00 and an expense
  of net 50.00, and nothing else in the year.
\<close>

definition ledger_pl :: db where
  "ledger_pl =
     \<lparr>businesses = [\<lparr>biz_id = 1, currency = ''CHF''\<rparr>],
      accounts =
        [\<lparr>acc_id = 1, acc_business_id = 1, acc_name = ''A'', acc_type = BANK,
          opening_balance = 0\<rparr>],
      categories =
        [\<lparr>cat_id = 1, cat_business_id = 1, code = ''head_1'', cat_type = INCOME\<rparr>,
         \<lparr>cat_id = 12, cat_business_id = 1, code = ''head_12'', cat_type = EXPENSE\<rparr>],
      transactions =
        [\<lparr>txn_id = 1, account_id = 1,
          txn_date = \<lparr>d_year = 2026, d_month = 1, d_day = 15\<rparr>, direction = IN,
          gross_amount = 100, tax_amount = 0, net_amount = 100, is_reconciled = True\<rparr>,
         \<lparr>txn_id = 2, account_id = 1,
          txn_date = \<lparr>d_year = 2026, d_month = 1, d_day = 20\<rparr>, direction = OUT,
          gross_amount = 50, tax_amount = 0, net_amount = 50, is_reconciled = True\<rparr>],
      transaction_lines =
        [\<lparr>line_id = 1, transaction_id = 1, category_id = Some 1, special_type = None,
          amount = 100\<rparr>,
         \<lparr>line_id = 2, transaction_id = 2, category_id = Some 12, special_type = None,
          amount = 50\<rparr>]\<rparr>"

text \<open>One unreconciled transaction of 5 January 2026 without allocation lines.\<close>

definition txn_unallocated :: Transaction where
  "txn_unallocated =
     \<lparr>txn_id = 1, account_id = 1,
      txn_date = \<lparr>d_year = 2026, d_month = 1, d_day = 5\<rparr>, direction = IN,
      gross_amount = 100, tax_amount = 0, net_amount = 100, is_reconciled = False\<rparr>"

definition ledger_unallocated :: db where
  "ledger_unallocated =
     \<lparr>businesses = [\<lparr>biz_id = 1, currency = ''CHF''\<rparr>],
      accounts =
        [\<lparr>acc_id = 1, acc_business_id = 1, acc_name = ''A'', acc_type = BANK,
          opening_balance = 0\<rparr>],
      categories = [],
      transactions = [txn_unallocated],
      transaction_lines = []\<rparr>"

section \<open>Evaluation\<close>

lemma floor_rat_divide_numeral [simp]:
  "\<lfloor>numeral a / numeral b :: rat\<rfloor> = numeral a div numeral b"
  using floor_divide_of_int_eq [of "numeral a" "numeral b", where ?'a = rat] by simp

lemma floor_rat_minus_divide_numeral [simp]:
  "\<lfloor>- (numeral a / numeral b) :: rat\<rfloor> = - numeral a div numeral b"
  using floor_divide_of_int_eq [of "- numeral a" "numeral b", where ?'a = rat] by simp

lemma ceiling_rat_divide_numeral [simp]:
  "\<lceil>numeral a / numeral b :: rat\<rceil> = - (- numeral a div numeral b)"
  by (simp add: ceiling_def)

lemma upto_1_12: "[1 .. 12 :: int] = [1, 2, 3, 4, 5, 6, 7, 8, 9, 10, 11, 12]"
  by (simp add: upto_rec1)

lemmas dec_eval = round_half_even_def adjusted_def scale10_def prec_def fix_prec_def
  dec_add_def dec_sub_def dec_neg_def dec_abs_def dec_div_def quantize_def dec_sum_def
  Let_def digits10.simps

lemmas date_eval = is_leap_def days_in_month_def valid_date_def date_ctor_def date_lt_def
  date_le_def days_before_year_def days_before_month_def toordinal_def month_end_date_def
  in_window_def month_as_of_date_def

lemmas query_eval = line_txn_def txn_account_def txn_in_business_def query_txns_def
  query_lines_def cats_of_type_def business_accounts_def txn_lines_def

section \<open>Properties of the decimal arithmetic\<close>

lemma rhe_of_int [simp]: "round_half_even (of_int n) = n"
  by (simp add: round_half_even_def)

lemma rhe_upper: "of_int (round_half_even x) \<le> x + 1 / 2"
  unfolding round_half_even_def Let_def
  by (auto simp: not_less) linarith+

lemma rhe_lower: "x - 1 / 2 \<le> of_int (round_half_even x)"
  unfolding round_half_even_def Let_def
  by (auto simp: not_less) linarith+

lemma rhe_low: "of_int k \<le> x \<Longrightarrow> x < of_int k + 1 / 2 \<Longrightarrow> round_half_even x = k"
proof -
  assume a: "of_int k \<le> x" "x < of_int k + 1 / 2"
  then have "\<lfloor>x\<rfloor> = k" by linarith
  with a show ?thesis by (simp add: round_half_even_def Let_def)
qed

lemma rhe_high: "of_int k + 1 / 2 < x \<Longrightarrow> x \<le> of_int k + 1 \<Longrightarrow> round_half_even x = k + 1"
proof -
  assume a: "of_int k + 1 / 2 < x" "x \<le> of_int k + 1"
  show ?thesis
  proof (cases "x = of_int k + 1")
    case True
    then have "x = of_int (k + 1)" by simp
    then show ?thesis using rhe_of_int by metis
  next
    case False
    with a have "\<lfloor>x\<rfloor> = k" by linarith
    with a show ?thesis by (simp add: round_half_even_def Let_def)
  qed
qed

lemma rhe_mono: "x \<le> y \<Longrightarrow> round_half_even x \<le> round_half_even y"
proof -
  assume xy: "x \<le> y"
  have fl: "\<lfloor>x\<rfloor> \<le> \<lfloor>y\<rfloor>" using xy by (rule floor_mono)
  have ux: "round_half_even x \<le> \<lfloor>x\<rfloor> + 1" by (simp add: round_half_even_def Let_def)
  have ly: "\<lfloor>y\<rfloor> \<le> round_half_even y" by (simp add: round_half_even_def Let_def)
  show ?thesis
  proof (cases "\<lfloor>x\<rfloor> < \<lfloor>y\<rfloor>")
    case True
    with ux ly show ?thesis by linarith
  next
    case False
    with fl have eq: "\<lfloor>x\<rfloor> = \<lfloor>y\<rfloor>" by simp
    then have "x - of_int \<lfloor>x\<rfloor> \<le> y - of_int \<lfloor>y\<rfloor>" using xy by simp
    then show ?thesis using eq by (auto simp: round_half_even_def Let_def)
  qed
qed

lemma rhe_nonneg: "0 \<le> x \<Longrightarrow> 0 \<le> round_half_even x"
  using rhe_mono [of 0 x] rhe_of_int [of 0] by simp

lemma digits10_pos: "0 < digits10 n"
  by (subst digits10.simps) simp

lemma digits10_bounds: "0 < n \<Longrightarrow> 10 ^ (digits10 n - 1) \<le> n \<and> n < 10 ^ digits10 n"
proof (induction n rule: digits10.induct)
  case (1 n)
  show ?case
  proof (cases "n < 10")
    case True
    with "1.prems" show ?thesis by (subst (1 2) digits10.simps) simp
  next
    case False
    then have pos: "0 < n div 10" by simp
    from "1.IH" [OF False pos]
    have ih: "10 ^ (digits10 (n div 10) - 1) \<le> n div 10" "n div 10 < 10 ^ digits10 (n div 10)"
      by simp_all
    have d: "digits10 n = Suc (digits10 (n div 10))" using False by (subst digits10.simps) simp
    have "10 * 10 ^ (digits10 (n div 10) - 1) \<le> n" using ih(1) by linarith
    moreover have "10 * 10 ^ (digits10 (n div 10) - 1) = (10::nat) ^ digits10 (n div 10)"
      using digits10_pos [of "n div 10"] by (cases "digits10 (n div 10)") simp_all
    moreover have "n < 10 * 10 ^ digits10 (n div 10)" using ih(2) by linarith
    ultimately show ?thesis by (simp add: d)
  qed
qed

lemma adjusted_bounds:
  assumes "x \<noteq> 0"
  shows "10 powi (adjusted x) \<le> \<bar>x\<bar> \<and> \<bar>x\<bar> < 10 powi (adjusted x + 1)"
proof (cases "1 \<le> \<bar>x\<bar>")
  case True
  define n where "n = nat \<lfloor>\<bar>x\<bar>\<rfloor>"
  have fl: "1 \<le> \<lfloor>\<bar>x\<bar>\<rfloor>" using True by linarith
  then have npos: "0 < n" unfolding n_def by linarith
  have "0 \<le> \<lfloor>\<bar>x\<bar>\<rfloor>" using fl by linarith
  then have n_int: "(of_nat n :: rat) = of_int \<lfloor>\<bar>x\<bar>\<rfloor>"
    unfolding n_def by (rule of_nat_nat)
  have nle: "of_nat n \<le> \<bar>x\<bar>" "\<bar>x\<bar> < of_nat n + 1"
    unfolding n_int by linarith+
  from digits10_bounds [OF npos]
  have b: "10 ^ (digits10 n - 1) \<le> n" "n + 1 \<le> 10 ^ digits10 n" by simp_all
  have adj: "adjusted x = int (digits10 n) - 1"
    using True by (simp add: adjusted_def Let_def n_def)
  have adj': "adjusted x = int (digits10 n - 1)"
    using digits10_pos [of n] adj by linarith
  have p1: "10 powi adjusted x = (10::rat) ^ (digits10 n - 1)"
    unfolding adj' by simp
  have "adjusted x + 1 = int (digits10 n)" using adj by simp
  then have p2: "10 powi (adjusted x + 1) = (10::rat) ^ digits10 n"
    by simp
  have "(of_nat (10 ^ (digits10 n - 1)) :: rat) \<le> of_nat n"
    using b(1) by (rule of_nat_mono)
  then have q1: "(10::rat) ^ (digits10 n - 1) \<le> of_nat n" by simp
  have "(of_nat (n + 1) :: rat) \<le> of_nat (10 ^ digits10 n)"
    using b(2) by (rule of_nat_mono)
  then have q2: "(of_nat n + 1 :: rat) \<le> 10 ^ digits10 n" by simp
  show ?thesis unfolding p1 p2 using q1 q2 nle by linarith
next
  case False
  define a where "a = \<bar>x\<bar>"
  have a: "0 < a" "a < 1" using assms False by (simp_all add: a_def)
  define m where "m = nat (\<lceil>1 / a\<rceil> - 1)"
  have "1 < 1 / a" using a by simp
  then have c2: "2 \<le> \<lceil>1 / a\<rceil>" by linarith
  then have mpos: "0 < m" unfolding m_def by linarith
  have "0 \<le> \<lceil>1 / a\<rceil> - 1" using c2 by linarith
  then have "(of_nat m :: rat) = of_int (\<lceil>1 / a\<rceil> - 1)"
    unfolding m_def by (rule of_nat_nat)
  then have m_int: "(of_nat m :: rat) = of_int \<lceil>1 / a\<rceil> - 1"
    by (simp only: of_int_diff of_int_1)
  have mle: "of_nat m < 1 / a" "1 / a \<le> of_nat m + 1"
    unfolding m_int by linarith+
  from digits10_bounds [OF mpos]
  have b: "10 ^ (digits10 m - 1) \<le> m" "m + 1 \<le> 10 ^ digits10 m" by simp_all
  have "(of_nat (10 ^ (digits10 m - 1)) :: rat) \<le> of_nat m"
    using b(1) by (rule of_nat_mono)
  then have q1: "(10::rat) ^ (digits10 m - 1) \<le> of_nat m" by simp
  have "(of_nat (m + 1) :: rat) \<le> of_nat (10 ^ digits10 m)"
    using b(2) by (rule of_nat_mono)
  then have q2: "(of_nat m + 1 :: rat) \<le> 10 ^ digits10 m" by simp
  have adj: "adjusted x = - int (digits10 m)"
    using False by (simp add: adjusted_def Let_def m_def a_def)
  have p1: "10 powi adjusted x = 1 / (10::rat) ^ digits10 m"
    unfolding adj by (simp add: power_int_minus field_simps)
  have "adjusted x + 1 = - int (digits10 m - 1)"
    using digits10_pos [of m] adj by linarith
  then have p2: "10 powi (adjusted x + 1) = 1 / (10::rat) ^ (digits10 m - 1)"
    by (simp add: power_int_minus field_simps)
  have "1 / a \<le> 10 ^ digits10 m" using mle(2) q2 by linarith
  then have r1: "1 / (10::rat) ^ digits10 m \<le> a"
    using a(1) by (simp add: field_simps)
  have "(10::rat) ^ (digits10 m - 1) < 1 / a" using mle(1) q1 by linarith
  then have r2: "a < 1 / (10::rat) ^ (digits10 m - 1)"
    using a(1) by (simp add: field_simps)
  show ?thesis unfolding p1 p2 using r1 r2 by (simp add: a_def)
qed

lemma rhe_of_int_scaled [simp]: "round_half_even (of_int m * 10 ^ j) = m * 10 ^ j"
  using rhe_of_int [of "m * 10 ^ j"] by simp

lemma scale10_powi: "scale10 x k = x * 10 powi k"
proof (cases "0 \<le> k")
  case True
  then show ?thesis by (simp add: scale10_def power_int_def)
next
  case False
  then show ?thesis by (simp add: scale10_def power_int_def power_one_over)
qed

lemma fix_prec_powi:
  "x \<noteq> 0 \<Longrightarrow>
   fix_prec x =
     of_int (round_half_even (x * 10 powi (27 - adjusted x))) * 10 powi (adjusted x - 27)"
  by (simp add: fix_prec_def Let_def prec_def scale10_powi)

lemma powi_cancel: "(10::rat) powi a * 10 powi (- a) = 1"
  by (simp add: power_int_minus)

lemma adjusted_less:
  assumes "x \<noteq> 0" "\<bar>x\<bar> < 10 powi n"
  shows "adjusted x < n"
proof (rule ccontr)
  assume "\<not> adjusted x < n"
  then have "n \<le> adjusted x" by simp
  then have "(10::rat) powi n \<le> 10 powi adjusted x"
    by (rule power_int_increasing) simp
  with adjusted_bounds [OF assms(1)] assms(2) show False by linarith
qed

lemma decimal_magnitude:
  fixes m :: int
  assumes "\<bar>m\<bar> < 10 ^ p"
  shows "\<bar>of_int m / 10 ^ k :: rat\<bar> < 10 powi (int p - int k)"
proof -
  have "(of_int \<bar>m\<bar> :: rat) < of_int (10 ^ p)" using assms by (simp only: of_int_less_iff)
  then have "(of_int \<bar>m\<bar> :: rat) < 10 ^ p" by simp
  then have "(of_int \<bar>m\<bar> :: rat) / 10 ^ k < 10 ^ p / 10 ^ k"
    by (simp add: divide_strict_right_mono)
  moreover have "(10::rat) ^ p / 10 ^ k = 10 powi (int p - int k)"
    by (simp add: power_int_diff)
  moreover have "\<bar>of_int m / 10 ^ k :: rat\<bar> = of_int \<bar>m\<bar> / 10 ^ k"
    by (simp add: abs_divide)
  ultimately show ?thesis by simp
qed

text \<open>A value with at most 28 digits is not changed by the rounding of the context.\<close>

lemma fix_prec_exact:
  fixes m :: int
  assumes "x = of_int m / 10 ^ k" "\<bar>m\<bar> < 10 ^ 28"
  shows "fix_prec x = x"
proof (cases "x = 0")
  case True
  then show ?thesis by (simp add: fix_prec_def)
next
  case False
  define e where "e = adjusted x"
  have "\<bar>x\<bar> < 10 powi (28 - int k)"
    using decimal_magnitude [OF assms(2), of k] assms(1) by simp
  then have "e < 28 - int k" unfolding e_def by (rule adjusted_less [OF False])
  then have j: "0 \<le> 27 - e - int k" by simp
  define j where "j = nat (27 - e - int k)"
  have jj: "int j = 27 - e - int k" using j by (simp add: j_def)
  have xm: "x = of_int m * 10 powi (- int k)"
    using assms(1) by (simp add: power_int_minus divide_inverse)
  have "x * 10 powi (27 - e) = of_int m * (10 powi (- int k) * 10 powi (27 - e))"
    by (simp add: xm)
  also have "10 powi (- int k) * (10::rat) powi (27 - e) = 10 powi (int j)"
    unfolding jj by (simp flip: power_int_add)
  also have "of_int m * (10::rat) powi (int j) = of_int (m * 10 ^ j)"
    by simp
  finally have scaled: "x * 10 powi (27 - e) = of_int (m * 10 ^ j)" .
  have "fix_prec x = of_int (m * 10 ^ j) * 10 powi (e - 27)"
    unfolding fix_prec_powi [OF False] e_def [symmetric] scaled by simp
  also have "\<dots> = of_int m * (10 powi (int j) * 10 powi (e - 27))"
    by simp
  also have "10 powi (int j) * (10::rat) powi (e - 27) = 10 powi (- int k)"
    unfolding jj by (simp flip: power_int_add)
  finally show ?thesis using xm by simp
qed

lemma fix_prec_bounds:
  fixes m :: int
  assumes "0 \<le> x" "x \<le> y" "y = of_int m / 10 ^ k" "m < 10 ^ 28"
  shows "0 \<le> fix_prec x \<and> fix_prec x \<le> y"
proof (cases "x = 0")
  case True
  then show ?thesis using assms(1,2) by (simp add: fix_prec_def)
next
  case False
  define e where "e = adjusted x"
  have xpos: "0 < x" using False assms(1) by simp
  have ypos: "0 < y" using xpos assms(2) by simp
  then have "0 < (of_int m :: rat)" using assms(3) by (simp add: zero_less_divide_iff)
  then have mpos: "0 < m" by simp
  then have "\<bar>m\<bar> < 10 ^ 28" using assms(4) by simp
  then have "\<bar>y\<bar> < 10 powi (28 - int k)"
    using decimal_magnitude [of m 28 k] assms(3) by simp
  then have "\<bar>x\<bar> < 10 powi (28 - int k)" using xpos assms(2) by simp
  then have "e < 28 - int k" unfolding e_def by (rule adjusted_less [OF False])
  then have j: "0 \<le> 27 - e - int k" by simp
  define j where "j = nat (27 - e - int k)"
  have jj: "int j = 27 - e - int k" using j by (simp add: j_def)
  have ym: "y = of_int m * 10 powi (- int k)"
    using assms(3) by (simp add: power_int_minus divide_inverse)
  have "y * 10 powi (27 - e) = of_int m * (10 powi (- int k) * 10 powi (27 - e))"
    by (simp add: ym)
  also have "10 powi (- int k) * (10::rat) powi (27 - e) = 10 powi (int j)"
    unfolding jj by (simp flip: power_int_add)
  also have "of_int m * (10::rat) powi (int j) = of_int (m * 10 ^ j)"
    by simp
  finally have scaled: "y * 10 powi (27 - e) = of_int (m * 10 ^ j)" .
  have le: "x * 10 powi (27 - e) \<le> y * 10 powi (27 - e)"
    using assms(2) by (simp add: mult_right_mono)
  have nn: "0 \<le> x * 10 powi (27 - e)" using xpos by simp
  define N where "N = round_half_even (x * 10 powi (27 - e))"
  have N0: "0 \<le> N" unfolding N_def using nn by (rule rhe_nonneg)
  have "N \<le> round_half_even (of_int (m * 10 ^ j))"
    unfolding N_def using le unfolding scaled by (rule rhe_mono)
  then have N1: "N \<le> m * 10 ^ j" by simp
  have fp: "fix_prec x = of_int N * 10 powi (e - 27)"
    unfolding fix_prec_powi [OF False] e_def [symmetric] N_def by simp
  have "(of_int N :: rat) \<le> of_int (m * 10 ^ j)"
    using N1 by (simp only: of_int_le_iff)
  then have "of_int N * 10 powi (e - 27) \<le> (of_int (m * 10 ^ j) :: rat) * 10 powi (e - 27)"
    by (rule mult_right_mono) simp
  also have "\<dots> = y * (10 powi (27 - e) * 10 powi (e - 27))"
    unfolding scaled [symmetric] by simp
  also have "10 powi (27 - e) * (10::rat) powi (e - 27) = 1"
    by (simp flip: power_int_add)
  finally have "fix_prec x \<le> y" unfolding fp by simp
  moreover have "0 \<le> fix_prec x" unfolding fp using N0 by simp
  ultimately show ?thesis by simp
qed

lemma fix_prec_scaled:
  assumes "0 < x" "x < 10 ^ n" "n \<le> 27"
  shows "\<exists>t. 28 - n \<le> t \<and> fix_prec x = of_int (round_half_even (x * 10 ^ t)) / 10 ^ t"
proof -
  define e where "e = adjusted x"
  have x0: "x \<noteq> 0" using assms(1) by simp
  have "\<bar>x\<bar> < 10 powi (int n)" using assms(1,2) by simp
  then have en: "e < int n" unfolding e_def by (rule adjusted_less [OF x0])
  define t where "t = nat (27 - e)"
  have tt: "int t = 27 - e" using en assms(3) by (simp add: t_def)
  have t_ge: "28 - n \<le> t" using en tt by linarith
  have p1: "(10::rat) powi (27 - e) = 10 ^ t" unfolding tt [symmetric] by simp
  have "e - 27 = - int t" using tt by simp
  then have p2: "(10::rat) powi (e - 27) = 1 / 10 ^ t"
    by (simp add: power_int_minus divide_inverse)
  have "fix_prec x = of_int (round_half_even (x * 10 ^ t)) / 10 ^ t"
    unfolding fix_prec_powi [OF x0] e_def [symmetric] p1 p2 by simp
  with t_ge show ?thesis by blast
qed

text \<open>
  Rounding a quotient to many digits first and to an integer afterwards gives the
  integer that rounding the quotient at once gives, when the denominator is smaller
  than the scale of the first rounding.
\<close>

lemma double_rounding:
  fixes A D :: int and t :: nat
  assumes "0 < D" "D < 10 ^ t" "0 < t"
  shows "round_half_even (of_int (round_half_even (of_int A / of_int D * 10 ^ t)) / 10 ^ t) =
         round_half_even (of_int A / of_int D)"
proof -
  define c :: rat where "c = of_int A / of_int D"
  define T :: rat where "T = 10 ^ t"
  define k where "k = \<lfloor>c\<rfloor>"
  define N where "N = round_half_even (c * T)"
  have Dpos: "0 < (of_int D :: rat)" using assms(1) by simp
  have Tpos: "0 < T" by (simp add: T_def)
  have "(of_int D :: rat) < of_int (10 ^ t)" using assms(2) by (simp only: of_int_less_iff)
  then have DT: "of_int D < T" by (simp add: T_def)
  have half: "1 / 2 < T / (2 * of_int D)"
    using DT Dpos by (simp add: field_simps)
  have kc: "of_int k \<le> c" "c < of_int k + 1" unfolding k_def by linarith+
  have Nup: "of_int N \<le> c * T + 1 / 2" unfolding N_def by (rule rhe_upper)
  have Nlo: "c * T - 1 / 2 \<le> of_int N" unfolding N_def by (rule rhe_lower)
  have "of_int k * T \<le> c * T" using kc(1) Tpos by (simp add: mult_right_mono)
  then have "round_half_even (of_int k * T) \<le> N" unfolding N_def by (rule rhe_mono)
  then have "k * 10 ^ t \<le> N" by (simp add: T_def)
  then have "(of_int (k * 10 ^ t) :: rat) \<le> of_int N" by (simp only: of_int_le_iff)
  then have NkT: "of_int k * T \<le> of_int N" by (simp add: T_def)
  have "c * T \<le> of_int (k + 1) * T" using kc(2) Tpos by (simp add: mult_right_mono)
  then have "N \<le> round_half_even (of_int (k + 1) * T)" unfolding N_def by (rule rhe_mono)
  then have "N \<le> (k + 1) * 10 ^ t" unfolding T_def by (simp only: rhe_of_int_scaled)
  then have "(of_int N :: rat) \<le> of_int ((k + 1) * 10 ^ t)" by (simp only: of_int_le_iff)
  then have NkT1: "of_int N \<le> (of_int k + 1) * T" by (simp add: T_def)
  have Y_ge: "of_int k \<le> of_int N / T" using NkT Tpos by (simp add: field_simps)
  have Y_le: "of_int N / T \<le> of_int k + 1" using NkT1 Tpos by (simp add: field_simps)
  consider (lt) "c < of_int k + 1 / 2" | (eq) "c = of_int k + 1 / 2" | (gt) "of_int k + 1 / 2 < c"
    by linarith
  then have "round_half_even (of_int N / T) = round_half_even c"
  proof cases
    case lt
    have "of_int A < (of_int k + 1 / 2) * (of_int D :: rat)"
      using lt Dpos by (simp add: c_def pos_divide_less_eq)
    then have "(of_int (2 * A) :: rat) < of_int ((2 * k + 1) * D)"
      by (simp add: algebra_simps)
    then have "2 * A < (2 * k + 1) * D" by (simp only: of_int_less_iff)
    then have "2 * A + 1 \<le> (2 * k + 1) * D" by simp
    then have "(of_int (2 * A + 1) :: rat) \<le> of_int ((2 * k + 1) * D)"
      by (simp only: of_int_le_iff)
    then have "2 * of_int A + 1 \<le> (2 * of_int k + 1) * (of_int D :: rat)" by simp
    then have "(2 * of_int A + 1) / (2 * of_int D) \<le>
               ((2 * of_int k + 1) * (of_int D :: rat)) / (2 * of_int D)"
      using Dpos by (intro divide_right_mono) simp_all
    moreover have "(2 * of_int A + 1) / (2 * of_int D :: rat) = c + 1 / (2 * of_int D)"
      using Dpos by (simp add: c_def field_simps)
    moreover have "((2 * of_int k + 1) * (of_int D :: rat)) / (2 * of_int D) =
                   of_int k + 1 / 2"
      using Dpos by (simp add: field_simps)
    ultimately have "c + 1 / (2 * of_int D) \<le> of_int k + 1 / 2" by simp
    then have "(c + 1 / (2 * of_int D)) * T \<le> (of_int k + 1 / 2) * T"
      using Tpos by (simp add: mult_right_mono)
    then have "c * T + T / (2 * of_int D) \<le> (of_int k + 1 / 2) * T"
      by (simp add: algebra_simps)
    with half Nup have "of_int N < (of_int k + 1 / 2) * T" by linarith
    then have "of_int N / T < of_int k + 1 / 2" using Tpos by (simp add: field_simps)
    with Y_ge have "round_half_even (of_int N / T) = k" by (rule rhe_low)
    moreover have "round_half_even c = k" using kc(1) lt by (rule rhe_low)
    ultimately show ?thesis by simp
  next
    case gt
    have "(of_int k + 1 / 2) * (of_int D :: rat) < of_int A"
      using gt Dpos by (simp add: c_def pos_less_divide_eq)
    then have "(of_int ((2 * k + 1) * D) :: rat) < of_int (2 * A)"
      by (simp add: algebra_simps)
    then have "(2 * k + 1) * D < 2 * A" by (simp only: of_int_less_iff)
    then have "(2 * k + 1) * D + 1 \<le> 2 * A" by simp
    then have "(of_int ((2 * k + 1) * D + 1) :: rat) \<le> of_int (2 * A)"
      by (simp only: of_int_le_iff)
    then have "(2 * of_int k + 1) * (of_int D :: rat) + 1 \<le> 2 * of_int A" by simp
    then have "((2 * of_int k + 1) * (of_int D :: rat) + 1) / (2 * of_int D) \<le>
               (2 * of_int A) / (2 * of_int D)"
      using Dpos by (intro divide_right_mono) simp_all
    moreover have "((2 * of_int k + 1) * (of_int D :: rat) + 1) / (2 * of_int D) =
                   of_int k + 1 / 2 + 1 / (2 * of_int D)"
      using Dpos by (simp add: field_simps)
    moreover have "(2 * of_int A) / (2 * of_int D) = c" by (simp add: c_def)
    ultimately have "of_int k + 1 / 2 + 1 / (2 * of_int D) \<le> c" by simp
    then have "(of_int k + 1 / 2 + 1 / (2 * of_int D)) * T \<le> c * T"
      using Tpos by (simp add: mult_right_mono)
    then have "(of_int k + 1 / 2) * T + T / (2 * of_int D) \<le> c * T"
      by (simp add: algebra_simps)
    with half Nlo have "(of_int k + 1 / 2) * T < of_int N" by linarith
    then have "of_int k + 1 / 2 < of_int N / T" using Tpos by (simp add: field_simps)
    then have "round_half_even (of_int N / T) = k + 1" using Y_le by (rule rhe_high)
    moreover have "round_half_even c = k + 1" using gt kc(2) by (intro rhe_high) simp_all
    ultimately show ?thesis by simp
  next
    case eq
    obtain u :: nat where u: "t = Suc u" using assms(3) by (cases t) simp_all
    have "c * T = of_int k * T + T / 2" by (simp add: eq algebra_simps)
    also have "T / 2 = of_int (5 * 10 ^ u)" by (simp add: T_def u)
    also have "of_int k * T + of_int (5 * 10 ^ u) = of_int (k * 10 ^ t + 5 * 10 ^ u)"
      by (simp add: T_def)
    finally have "c * T = of_int (k * 10 ^ t + 5 * 10 ^ u)" .
    then have "N = k * 10 ^ t + 5 * 10 ^ u" unfolding N_def by (simp only: rhe_of_int)
    then have "of_int N = c * T" using \<open>c * T = of_int (k * 10 ^ t + 5 * 10 ^ u)\<close> by simp
    then have "of_int N / T = c" using Tpos by simp
    then show ?thesis by simp
  qed
  then show ?thesis by (simp add: N_def c_def T_def)
qed

lemma is_money_cents:
  assumes "is_money x"
  obtains G :: int where "x = of_int G / 10 ^ 2" "\<bar>G\<bar> < 10 ^ 15"
proof -
  define G where "G = \<lfloor>x * 100\<rfloor>"
  have g: "of_int G = x * 100" using assms by (simp add: is_money_def is_cents_def G_def)
  then have x: "x = of_int G / 10 ^ 2" by simp
  have "\<bar>x\<bar> < 10 ^ 13" using assms by (simp add: is_money_def)
  then have "\<bar>x * 100\<bar> < 10 ^ 15" by (simp add: abs_mult)
  then have "\<bar>of_int G :: rat\<bar> < of_int (10 ^ 15)" unfolding g by simp
  then have "(of_int \<bar>G\<bar> :: rat) < of_int (10 ^ 15)" by simp
  then have "\<bar>G\<bar> < 10 ^ 15" by (simp only: of_int_less_iff)
  with x show ?thesis by (rule that)
qed

lemma fix_prec_money: "is_money x \<Longrightarrow> fix_prec x = x"
proof -
  assume "is_money x"
  then obtain G :: int where G: "x = of_int G / 10 ^ 2" "\<bar>G\<bar> < 10 ^ 15"
    by (rule is_money_cents)
  from G(2) have "\<bar>G\<bar> < 10 ^ 28" by simp
  with G(1) show ?thesis by (rule fix_prec_exact)
qed

lemma tax_amount_value:
  assumes "is_money gross" "0 \<le> gross" "is_rate r" "r \<noteq> 0"
  shows "quantize (fix_prec (gross / fix_prec (1 + r))) =
           Inr (round2_half_even (gross / (1 + r))) \<and>
         0 \<le> round2_half_even (gross / (1 + r)) \<and>
         round2_half_even (gross / (1 + r)) \<le> gross \<and>
         is_money (round2_half_even (gross / (1 + r)))"
proof -
  obtain G :: int where G: "gross = of_int G / 10 ^ 2" "\<bar>G\<bar> < 10 ^ 15"
    using assms(1) by (rule is_money_cents)
  have G0: "0 \<le> G" using assms(2) G(1) by (simp add: zero_le_divide_iff)
  define R where "R = \<lfloor>r * 10000\<rfloor>"
  have Rr: "of_int R = r * 10000" using assms(3) by (simp add: is_rate_def R_def)
  have r0: "0 < r" "r < 1" using assms(3,4) by (simp_all add: is_rate_def)
  define D where "D = 10000 + R"
  have "0 < (of_int R :: rat)" "(of_int R :: rat) < of_int 10000" unfolding Rr using r0 by simp_all
  then have R: "0 < R" "R < 10000" by (simp_all only: of_int_less_iff of_int_0_less_iff)
  have D: "10000 < D" "D < 20000" using R by (simp_all add: D_def)
  have div1: "1 + r = of_int D / 10 ^ 4"
    using Rr by (simp add: D_def field_simps)
  have "\<bar>D\<bar> < 10 ^ 28" using D by simp
  with div1 have divisor: "fix_prec (1 + r) = 1 + r" by (rule fix_prec_exact)
  define q where "q = gross / (1 + r)"
  have Dpos: "0 < (of_int D :: rat)" using D by simp
  have q100: "q * 100 = of_int (10000 * G) / of_int D"
    using Dpos by (simp add: q_def G(1) div1 field_simps)
  have q_nonneg: "0 \<le> q" using assms(2) r0 by (simp add: q_def)
  have q_le: "q \<le> gross"
  proof -
    have "gross / (1 + r) \<le> gross / 1"
      using assms(2) r0 by (intro divide_left_mono) simp_all
    then show ?thesis by (simp add: q_def)
  qed
  have fix_q: "round_half_even (fix_prec q * 100) = round_half_even (q * 100)"
  proof (cases "q = 0")
    case True
    then show ?thesis by (simp add: fix_prec_def)
  next
    case False
    then have qpos: "0 < q" using q_nonneg by simp
    have "\<bar>gross\<bar> < 10 ^ 13" using assms(1) by (simp add: is_money_def)
    then have "q < 10 ^ 13" using q_le by linarith
    from fix_prec_scaled [OF qpos this]
    obtain t where t: "28 - 13 \<le> t" "fix_prec q = of_int (round_half_even (q * 10 ^ t)) / 10 ^ t"
      by auto
    define u where "u = t - 2"
    have tu: "t = u + 2" "13 \<le> u" using t(1) by (simp_all add: u_def)
    have "D < 10 ^ 13" using D by simp
    also have "(10::int) ^ 13 \<le> 10 ^ u" using tu(2) by (intro power_increasing) simp_all
    finally have Du: "D < 10 ^ u" .
    have upos: "0 < u" using tu(2) by simp
    have "0 < D" using D by simp
    from double_rounding [OF this Du upos, of "10000 * G"]
    have dr: "round_half_even (of_int (round_half_even (q * 100 * 10 ^ u)) / 10 ^ u) =
              round_half_even (q * 100)"
      unfolding q100 .
    have e1: "q * 10 ^ t = q * 100 * 10 ^ u" by (simp add: tu(1) power_add)
    have e2: "of_int n / 10 ^ t * (100::rat) = of_int n / 10 ^ u" for n :: int
      by (simp add: tu(1) power_add)
    have "round_half_even (fix_prec q * 100) =
          round_half_even (of_int (round_half_even (q * 10 ^ t)) / 10 ^ t * 100)"
      by (simp only: t(2))
    also have "\<dots> = round_half_even (of_int (round_half_even (q * 100 * 10 ^ u)) / 10 ^ u)"
      by (simp only: e2 e1)
    also have "\<dots> = round_half_even (q * 100)" by (rule dr)
    finally show ?thesis .
  qed
  define c where "c = round_half_even (q * 100)"
  have c0: "0 \<le> c" unfolding c_def using q_nonneg by (intro rhe_nonneg) simp
  have "q * 100 \<le> of_int G" using q_le by (simp add: G(1))
  then have "c \<le> round_half_even (of_int G)" unfolding c_def by (rule rhe_mono)
  then have cG: "c \<le> G" by simp
  have "\<bar>c\<bar> < 10 ^ prec" using c0 cG G(2) by (simp add: prec_def)
  then have quant: "quantize (fix_prec q) = Inr (of_int c / 100)"
    by (simp add: quantize_def Let_def fix_q c_def)
  have val: "round2_half_even (gross / (1 + r)) = of_int c / 100"
    by (simp add: round2_half_even_def c_def q_def)
  have "(of_int c :: rat) \<le> of_int G" using cG by (simp only: of_int_le_iff)
  then have le_gross: "of_int c / 100 \<le> gross" by (simp add: G(1))
  have "\<bar>of_int c / 100 :: rat\<bar> \<le> \<bar>gross\<bar>" using c0 le_gross assms(2) by simp
  moreover have "\<bar>gross\<bar> < 10 ^ 13" using assms(1) by (simp add: is_money_def)
  ultimately have "is_money (of_int c / 100)"
    by (simp add: is_money_def is_cents_def)
  then show ?thesis
    unfolding divisor q_def [symmetric] using quant c0 le_gross
    by (simp add: val q_def)
qed

lemma divisor_exact:
  assumes "is_rate r"
  shows "fix_prec (1 + r) = 1 + r"
proof -
  define R where "R = \<lfloor>r * 10000\<rfloor>"
  have Rr: "of_int R = r * 10000" using assms by (simp add: is_rate_def R_def)
  have "0 \<le> (of_int R :: rat)" "(of_int R :: rat) < of_int 10000"
    unfolding Rr using assms by (simp_all add: is_rate_def)
  then have R: "0 \<le> R" "R < 10000" by (simp_all only: of_int_less_iff of_int_0_le_iff)
  have "1 + r = of_int (10000 + R) / 10 ^ 4" using Rr by (simp add: field_simps)
  moreover have "\<bar>10000 + R\<bar> < 10 ^ 28" using R by simp
  ultimately show ?thesis by (rule fix_prec_exact)
qed

lemma is_money_diff:
  assumes "is_money a" "is_money b" "0 \<le> b" "b \<le> a"
  shows "is_money (a - b)"
proof -
  have a: "of_int \<lfloor>a * 100\<rfloor> = a * 100" and b: "of_int \<lfloor>b * 100\<rfloor> = b * 100"
    using assms(1,2) unfolding is_money_def is_cents_def by blast+
  have "(a - b) * 100 = of_int (\<lfloor>a * 100\<rfloor> - \<lfloor>b * 100\<rfloor>)"
    unfolding of_int_diff a b by (simp add: algebra_simps)
  then have "is_cents (a - b)" unfolding is_cents_def by (simp only: floor_of_int)
  moreover have "\<bar>a - b\<bar> \<le> \<bar>a\<bar>" using assms(3,4) by simp
  moreover have "\<bar>a\<bar> < 10 ^ 13" using assms(1) by (simp add: is_money_def)
  ultimately show ?thesis by (simp add: is_money_def)
qed

lemma is_cents_0 [simp]: "is_cents 0"
  by (simp add: is_cents_def)

lemma is_cents_add:
  assumes "is_cents a" "is_cents b"
  shows "is_cents (a + b)"
proof -
  have a: "of_int \<lfloor>a * 100\<rfloor> = a * 100" and b: "of_int \<lfloor>b * 100\<rfloor> = b * 100"
    using assms unfolding is_cents_def by blast+
  have "(a + b) * 100 = of_int (\<lfloor>a * 100\<rfloor> + \<lfloor>b * 100\<rfloor>)"
    unfolding of_int_add a b by (simp add: algebra_simps)
  then show ?thesis unfolding is_cents_def by (simp only: floor_of_int)
qed

lemma is_cents_diff:
  assumes "is_cents a" "is_cents b"
  shows "is_cents (a - b)"
proof -
  have a: "of_int \<lfloor>a * 100\<rfloor> = a * 100" and b: "of_int \<lfloor>b * 100\<rfloor> = b * 100"
    using assms unfolding is_cents_def by blast+
  have "(a - b) * 100 = of_int (\<lfloor>a * 100\<rfloor> - \<lfloor>b * 100\<rfloor>)"
    unfolding of_int_diff a b by (simp add: algebra_simps)
  then show ?thesis unfolding is_cents_def by (simp only: floor_of_int)
qed

lemma fix_prec_cents:
  assumes "is_cents x" "\<bar>x\<bar> < 10 ^ 26"
  shows "fix_prec x = x"
proof -
  define G where "G = \<lfloor>x * 100\<rfloor>"
  have g: "of_int G = x * 100" using assms(1) unfolding is_cents_def G_def by blast
  then have x: "x = of_int G / 10 ^ 2" by simp
  have "\<bar>x * 100\<bar> < 10 ^ 28" using assms(2) by (simp add: abs_mult)
  then have "\<bar>of_int G :: rat\<bar> < of_int (10 ^ 28)" unfolding g by simp
  then have "(of_int \<bar>G\<bar> :: rat) < of_int (10 ^ 28)" by simp
  then have "\<bar>G\<bar> < 10 ^ 28" by (simp only: of_int_less_iff)
  with x show ?thesis by (rule fix_prec_exact)
qed

lemma foldl_dec_add_exact:
  assumes "\<forall>x\<in>set xs. is_cents x" "is_cents a"
    and "\<bar>a\<bar> + sum_list (map abs xs) < 10 ^ 26"
  shows "foldl dec_add a xs = a + sum_list xs"
  using assms
proof (induction xs arbitrary: a)
  case Nil
  then show ?case by simp
next
  case (Cons x xs)
  have c: "is_cents (a + x)" using Cons.prems(1,2) by (simp add: is_cents_add)
  have nn: "0 \<le> sum_list (map abs xs)" by (rule sum_list_nonneg) auto
  have b: "\<bar>a + x\<bar> + sum_list (map abs xs) < 10 ^ 26"
    using Cons.prems(3) abs_triangle_ineq [of a x] by simp
  then have "\<bar>a + x\<bar> < 10 ^ 26" using nn by linarith
  with c have step: "dec_add a x = a + x" unfolding dec_add_def by (rule fix_prec_cents)
  have "foldl dec_add (a + x) xs = a + x + sum_list xs"
    using Cons.prems(1) c b by (intro Cons.IH) simp_all
  then show ?case by (simp add: step)
qed

lemma sum_list_abs_filter_le:
  "sum_list (map (\<lambda>x. \<bar>f x\<bar>) (filter P xs)) \<le> sum_list (map (\<lambda>x. \<bar>f x :: rat\<bar>) xs)"
  by (induction xs) (simp_all add: add_increasing)

lemma abs_sum_list_le: "\<bar>sum_list (map f xs)\<bar> \<le> sum_list (map (\<lambda>x. \<bar>f x :: rat\<bar>) xs)"
proof (induction xs)
  case Nil
  show ?case by simp
next
  case (Cons x xs)
  have "\<bar>f x + sum_list (map f xs)\<bar> \<le> \<bar>f x\<bar> + \<bar>sum_list (map f xs)\<bar>"
    by (rule abs_triangle_ineq)
  with Cons.IH show ?case by simp
qed

lemma is_cents_sum_list: "\<forall>x\<in>set xs. is_cents x \<Longrightarrow> is_cents (sum_list xs)"
  by (induction xs) (simp_all add: is_cents_add)

text \<open>
  In a ledger in range, adding up the amounts of any selection of lines is exact.
\<close>

lemma selection_sum_exact:
  assumes "amounts_in_range s"
  shows "foldl dec_add 0 (map amount (filter P (transaction_lines s))) =
           sum_list (map amount (filter P (transaction_lines s)))"
    and "\<bar>sum_list (map amount (filter P (transaction_lines s)))\<bar> < 10 ^ 24"
    and "is_cents (sum_list (map amount (filter P (transaction_lines s))))"
proof -
  let ?sel = "filter P (transaction_lines s)"
  have cents: "\<forall>x\<in>set (map amount ?sel). is_cents x"
    using assms by (auto simp: amounts_in_range_def)
  have "sum_list (map (\<lambda>l. \<bar>amount l\<bar>) ?sel) \<le>
        sum_list (map (\<lambda>l. \<bar>amount l\<bar>) (transaction_lines s))"
    by (rule sum_list_abs_filter_le)
  also have "\<dots> < 10 ^ 24" using assms by (simp add: amounts_in_range_def)
  finally have bound: "sum_list (map (\<lambda>l. \<bar>amount l\<bar>) ?sel) < 10 ^ 24" .
  have m: "map abs (map amount ?sel) = map (\<lambda>l. \<bar>amount l\<bar>) ?sel" by simp
  have "\<bar>0::rat\<bar> + sum_list (map abs (map amount ?sel)) < 10 ^ 26"
    unfolding m using bound by simp
  with cents show "foldl dec_add 0 (map amount ?sel) = sum_list (map amount ?sel)"
    using foldl_dec_add_exact [of "map amount ?sel" 0] by simp
  show "\<bar>sum_list (map amount ?sel)\<bar> < 10 ^ 24"
    using abs_sum_list_le [of amount ?sel] bound by linarith
  show "is_cents (sum_list (map amount ?sel))"
    using cents by (rule is_cents_sum_list)
qed

lemma fix_prec_ge_1:
  assumes "1 \<le> x"
  shows "1 \<le> fix_prec x"
proof -
  define e where "e = adjusted x"
  have x0: "x \<noteq> 0" using assms by simp
  have b: "10 powi e \<le> \<bar>x\<bar>" "\<bar>x\<bar> < 10 powi (e + 1)"
    unfolding e_def using adjusted_bounds [OF x0] by simp_all
  have e0: "0 \<le> e"
  proof (rule ccontr)
    assume "\<not> 0 \<le> e"
    then have "e + 1 \<le> 0" by simp
    then have "(10::rat) powi (e + 1) \<le> 10 powi 0" by (rule power_int_increasing) simp
    with b(2) assms show False by simp
  qed
  have "(10::rat) powi e * 10 powi (27 - e) \<le> x * 10 powi (27 - e)"
    using b(1) assms by (intro mult_right_mono) simp_all
  moreover have "(10::rat) powi e * 10 powi (27 - e) = 10 ^ 27"
    by (simp flip: power_int_add)
  ultimately have "(of_int (10 ^ 27) :: rat) \<le> x * 10 powi (27 - e)" by simp
  then have "round_half_even (of_int (10 ^ 27)) \<le> round_half_even (x * 10 powi (27 - e))"
    by (rule rhe_mono)
  then have "10 ^ 27 \<le> round_half_even (x * 10 powi (27 - e))"
    by (simp only: rhe_of_int)
  then have "(of_int (10 ^ 27) :: rat) \<le> of_int (round_half_even (x * 10 powi (27 - e)))"
    by (simp only: of_int_le_iff)
  then have "(10::rat) ^ 27 * 10 powi (e - 27) \<le>
             of_int (round_half_even (x * 10 powi (27 - e))) * 10 powi (e - 27)"
    by (intro mult_right_mono) simp_all
  moreover have "(10::rat) ^ 27 * 10 powi (e - 27) = 10 powi e"
    using power_int_add [of "10::rat" 27 "e - 27"] by simp
  moreover have "(1::rat) \<le> 10 powi e"
    using power_int_increasing [of 0 e "10::rat"] e0 by simp
  ultimately show ?thesis
    unfolding fix_prec_powi [OF x0] e_def [symmetric] by linarith
qed

lemma tax_amount_bounds:
  assumes "is_money gross" "0 \<le> gross" "1 \<le> d"
  shows "\<exists>tax. quantize (fix_prec (gross / d)) = Inr tax \<and>
           0 \<le> tax \<and> tax \<le> gross \<and> is_money tax"
proof -
  obtain G :: int where G: "gross = of_int G / 10 ^ 2" "\<bar>G\<bar> < 10 ^ 15"
    using assms(1) by (rule is_money_cents)
  have G28: "G < 10 ^ 28" using G(2) by simp
  have q0: "0 \<le> gross / d" using assms(2,3) by simp
  have "gross / d \<le> gross / 1"
    using assms(2,3) by (intro divide_left_mono) simp_all
  then have q1: "gross / d \<le> gross" by simp
  define q where "q = fix_prec (gross / d)"
  have q: "0 \<le> q" "q \<le> gross"
    unfolding q_def using fix_prec_bounds [OF q0 q1 G(1) G28] by simp_all
  define c where "c = round_half_even (q * 100)"
  have c0: "0 \<le> c" unfolding c_def using q(1) by (intro rhe_nonneg) simp
  have "q * 100 \<le> of_int G" using q(2) by (simp add: G(1))
  then have "c \<le> round_half_even (of_int G)" unfolding c_def by (rule rhe_mono)
  then have cG: "c \<le> G" by simp
  have "\<bar>c\<bar> < 10 ^ prec" using c0 cG G(2) by (simp add: prec_def)
  then have quant: "quantize q = Inr (of_int c / 100)"
    by (simp add: quantize_def Let_def c_def)
  have "(of_int c :: rat) \<le> of_int G" using cG by (simp only: of_int_le_iff)
  then have le_gross: "of_int c / 100 \<le> gross" by (simp add: G(1))
  have "\<bar>of_int c / 100 :: rat\<bar> \<le> \<bar>gross\<bar>" using c0 le_gross assms(2) by simp
  moreover have "\<bar>gross\<bar> < 10 ^ 13" using assms(1) by (simp add: is_money_def)
  ultimately have "is_money (of_int c / 100)"
    by (simp add: is_money_def is_cents_def)
  moreover have "0 \<le> (of_int c / 100 :: rat)" using c0 by simp
  moreover have "quantize (fix_prec (gross / d)) = Inr (of_int c / 100)"
    using quant by (simp only: q_def)
  ultimately show ?thesis using le_gross by blast
qed

section \<open>Helper lemmas on lists and dates\<close>

lemma mapM_err_Inr:
  "(\<And>x. x \<in> set xs \<Longrightarrow> f x = Inr (g x)) \<Longrightarrow> mapM_err f xs = Inr (map g xs)"
  by (induction xs) simp_all

lemma map_of_tabulate:
  "map_of (map (\<lambda>k. (k, f k)) ks) k = (if k \<in> set ks then Some (f k) else None)"
  by (induction ks) auto

lemma month_cases:
  "1 \<le> (m::int) \<Longrightarrow> m \<le> 12 \<Longrightarrow>
   m = 1 \<or> m = 2 \<or> m = 3 \<or> m = 4 \<or> m = 5 \<or> m = 6 \<or>
   m = 7 \<or> m = 8 \<or> m = 9 \<or> m = 10 \<or> m = 11 \<or> m = 12"
  by arith

lemma month_as_of_date_last_day:
  assumes "1 \<le> year" "year \<le> 9999" "1 \<le> month" "month \<le> 12"
  shows "month_as_of_date year month = Inr (last_day year month)"
  using month_cases [OF assms(3,4)] assms(1,2)
  by (auto simp: month_as_of_date_def date_ctor_def valid_date_def days_in_month_def
      is_leap_def last_day_def)

lemma days_in_month_bounds: "28 \<le> days_in_month y m \<and> days_in_month y m \<le> 31"
  by (simp add: days_in_month_def)

lemma date_ctor_first:
  assumes "1 \<le> year" "year \<le> 9999" "1 \<le> month" "month \<le> 12"
  shows "date_ctor year month 1 = Inr \<lparr>d_year = year, d_month = month, d_day = 1\<rparr>"
  using assms days_in_month_bounds [of year month]
  by (simp add: date_ctor_def valid_date_def)

lemma month_end_date_value:
  assumes "1 \<le> year" "year \<le> 9999" "1 \<le> month" "month \<le> 12"
  shows "month_end_date year month =
           Inr (if month = 12 then \<lparr>d_year = year, d_month = 12, d_day = 31\<rparr>
                else \<lparr>d_year = year, d_month = month + 1, d_day = 1\<rparr>)"
proof (cases "month = 12")
  case True
  then show ?thesis
    using assms(1,2) by (simp add: month_end_date_def date_ctor_def valid_date_def days_in_month_def)
next
  case False
  then have "1 \<le> month + 1" "month + 1 \<le> 12" using assms(3,4) by simp_all
  from date_ctor_first [OF assms(1,2) this] False show ?thesis
    by (simp add: month_end_date_def)
qed

lemma in_window_month:
  assumes "1 \<le> month" "month \<le> 12" "valid_date d"
  shows "in_window month \<lparr>d_year = year, d_month = month, d_day = 1\<rparr>
           (if month = 12 then \<lparr>d_year = year, d_month = 12, d_day = 31\<rparr>
            else \<lparr>d_year = year, d_month = month + 1, d_day = 1\<rparr>) d =
         in_month year month d"
proof -
  obtain y m dd where d: "d = \<lparr>d_year = y, d_month = m, d_day = dd\<rparr>"
    by (cases d) simp
  have v: "1 \<le> dd" "dd \<le> 31"
    using assms(3) days_in_month_bounds [of y m] by (simp_all add: valid_date_def d)
  show ?thesis
  proof (cases "month = 12")
    case True
    with v show ?thesis
      unfolding d in_window_def in_month_def date_le_def date_lt_def
      using assms(3) by (simp add: valid_date_def d) linarith
  next
    case False
    with v show ?thesis
      unfolding d in_window_def in_month_def date_le_def date_lt_def
      by simp linarith
  qed
qed

section \<open>The balance sheet\<close>

lemma calculate_net_profit_ytd_Inr:
  assumes "1 \<le> year" "year \<le> 9999"
  shows "\<exists>p. calculate_net_profit_ytd s business_id year as_of_date = Inr p"
  using assms
  by (auto simp: calculate_net_profit_ytd_def date_ctor_def valid_date_def days_in_month_def
      Let_def split: prod.splits)

lemma calculate_snapshot_Inr:
  assumes "1 \<le> year" "year \<le> 9999"
  shows "\<exists>data. calculate_snapshot s business_id year month as_of_date ore = Inr data"
proof -
  obtain p where "calculate_net_profit_ytd s business_id year as_of_date = Inr p"
    using calculate_net_profit_ytd_Inr [OF assms] by blast
  then show ?thesis by (simp add: calculate_snapshot_def Let_def)
qed

text \<open>
  For an existing business and a year of the calendar, \<open>generate_report\<close> returns the
  twelve month snapshots and, beside each, its validation entry.
\<close>

lemma BS_generate_report_Inr:
  assumes "find (\<lambda>b. biz_id b = business_id) (businesses s) = Some b"
    and "1 \<le> year" "year \<le> 9999"
  shows "BS_generate_report s business_id year =
           Inr \<lparr>bs_business_id = business_id, bs_year = year, bs_currency = currency b,
                bs_months =
                  map (\<lambda>m. (m, projr (month_snapshot s business_id year m))) [1 .. 12],
                bs_validation =
                  map (\<lambda>m. (m, validation_entry (projr (month_snapshot s business_id year m))))
                    [1 .. 12]\<rparr>"
proof -
  let ?f = "\<lambda>month.
     case month_as_of_date year month of
       Inl e \<Rightarrow> Inl e
     | Inr as_of_date \<Rightarrow>
         (case calculate_snapshot s business_id year month as_of_date
                 (calculate_opening_retained_earnings s business_id year) of
            Inl e \<Rightarrow> Inl e
          | Inr month_data \<Rightarrow> Inr (month, month_data))"
  have "?f m = Inr (m, projr (month_snapshot s business_id year m))"
    if "m \<in> set [1 .. 12]" for m
  proof -
    from that have m: "1 \<le> m" "m \<le> 12" by simp_all
    obtain data where "month_snapshot s business_id year m = Inr data"
      unfolding month_snapshot_def using calculate_snapshot_Inr [OF assms(2,3)] by blast
    then show ?thesis
      using month_as_of_date_last_day [OF assms(2,3) m]
      by (simp add: month_snapshot_def)
  qed
  then have "mapM_err ?f [1 .. 12] =
      Inr (map (\<lambda>m. (m, projr (month_snapshot s business_id year m))) [1 .. 12])"
    by (rule mapM_err_Inr)
  then show ?thesis
    using assms(1) by (simp add: BS_generate_report_def Let_def comp_def)
qed

text \<open>
  C2, as stated: for any ledger every month of the balance sheet is balanced. In the
  ledger of scenario 5 (2000.00 transferred out of account A, 1500.00 transferred into
  account B) the assets of March are -500.00 while liabilities and equity are 0.00, and
  the report says so: the entry of month 3 is not balanced.
\<close>

theorem unbalanced_month_counterexample:
  "month_validation (BS_generate_report ledger_transfers 1 2026) 3 =
     Some \<lparr>v_net_assets = - 500, v_equity = 0, v_balanced = False\<rparr>"
proof -
  have b: "find (\<lambda>b. biz_id b = 1) (businesses ledger_transfers) =
             Some \<lparr>biz_id = 1, currency = ''CHF''\<rparr>"
    by (simp add: ledger_transfers_def)
  have "map_sum id validation_entry (month_snapshot ledger_transfers 1 2026 3) =
          Inr \<lparr>v_net_assets = - 500, v_equity = 0, v_balanced = False\<rparr>"
    by code_simp
  then have "validation_entry (projr (month_snapshot ledger_transfers 1 2026 3)) =
               \<lparr>v_net_assets = - 500, v_equity = 0, v_balanced = False\<rparr>"
    by (cases "month_snapshot ledger_transfers 1 2026 3") simp_all
  then show ?thesis
    unfolding BS_generate_report_Inr [OF b, of 2026, simplified]
    by (simp add: month_validation_def map_of_tabulate)
qed

text \<open>
  C2, amended: for any ledger, an existing business and a year from 1 to 9999, the
  balance-sheet report is returned, whether its months balance or not, with one
  validation entry for each month 1 to 12. The entry of a month holds
  \<open>net_assets = assets.total - liabilities.total\<close> and \<open>equity = equity.total\<close> of that
  month's snapshot (taken as of the last day of the month), and its \<open>balanced\<close> flag is
  true exactly when the two are equal.
\<close>

theorem balanced_flag_reports_equation:
  assumes "find (\<lambda>b. biz_id b = business_id) (businesses s) = Some b"
    and "1 \<le> year" "year \<le> 9999"
  shows "\<exists>report. BS_generate_report s business_id year = Inr report \<and>
           map fst (bs_validation report) = [1 .. 12] \<and>
           (\<forall>month\<in>{1 .. 12}. \<exists>data.
              month_snapshot s business_id year month = Inr data \<and>
              map_of (bs_months report) month = Some data \<and>
              map_of (bs_validation report) month =
                Some \<lparr>v_net_assets = dec_sub (assets_total data) (liabilities_total data),
                      v_equity = equity_total data,
                      v_balanced =
                        (dec_sub (assets_total data) (liabilities_total data) =
                         equity_total data)\<rparr>)"
proof -
  define report where "report =
     \<lparr>bs_business_id = business_id, bs_year = year, bs_currency = currency b,
      bs_months = map (\<lambda>m. (m, projr (month_snapshot s business_id year m))) [1 .. 12],
      bs_validation =
        map (\<lambda>m. (m, validation_entry (projr (month_snapshot s business_id year m))))
          [1 .. 12]\<rparr>"
  have snap: "\<exists>data. month_snapshot s business_id year m = Inr data" for m
    unfolding month_snapshot_def using calculate_snapshot_Inr [OF assms(2,3)] by blast
  have returned: "BS_generate_report s business_id year = Inr report"
    unfolding report_def by (rule BS_generate_report_Inr [OF assms])
  have keys: "map fst (bs_validation report) = [1 .. 12]"
    by (simp add: report_def comp_def)
  have entries: "\<exists>data.
      month_snapshot s business_id year month = Inr data \<and>
      map_of (bs_months report) month = Some data \<and>
      map_of (bs_validation report) month =
        Some \<lparr>v_net_assets = dec_sub (assets_total data) (liabilities_total data),
              v_equity = equity_total data,
              v_balanced =
                (dec_sub (assets_total data) (liabilities_total data) = equity_total data)\<rparr>"
    if "month \<in> {1 .. 12}" for month
    using that snap [of month]
    by (auto simp: report_def map_of_tabulate validation_entry_def Let_def)
  from returned keys entries show ?thesis by blast
qed

theorem balanced_flag_reports_equation_witness:
  "find (\<lambda>b. biz_id b = 1) (businesses ledger_transfers) =
     Some \<lparr>biz_id = 1, currency = ''CHF''\<rparr> \<and> (1::int) \<le> 2026 \<and> (2026::int) \<le> 9999 \<and>
   (\<exists>report. BS_generate_report ledger_transfers 1 2026 = Inr report \<and>
      map fst (bs_validation report) = [1 .. 12] \<and>
      (\<forall>month\<in>{1 .. 12}. \<exists>data.
         month_snapshot ledger_transfers 1 2026 month = Inr data \<and>
         map_of (bs_months report) month = Some data \<and>
         map_of (bs_validation report) month =
           Some \<lparr>v_net_assets = dec_sub (assets_total data) (liabilities_total data),
                 v_equity = equity_total data,
                 v_balanced =
                   (dec_sub (assets_total data) (liabilities_total data) =
                    equity_total data)\<rparr>))"
proof -
  have b: "find (\<lambda>b. biz_id b = 1) (businesses ledger_transfers) =
             Some \<lparr>biz_id = 1, currency = ''CHF''\<rparr>"
    by (simp add: ledger_transfers_def)
  show ?thesis
    using b balanced_flag_reports_equation [OF b, of 2026] by simp
qed

text \<open>
  C3. The specification takes the credit-card component of the liabilities to be the
  sum, over all credit-card accounts, of the negative balances as positive magnitudes.
  The loop of \<open>_calculate_snapshot\<close> assigns \<open>credit_card_balance\<close> for each card
  instead of adding to it, so the component is the liability of the last credit-card
  account alone. With two cards, the first 100.00 in debt and the second unused, the
  component is 0.00 and the sum of the specification is 100.00.
\<close>

theorem credit_card_total_keeps_last_card_only:
  "map_sum id credit_cards_total
     (calculate_snapshot ledger_cards 1 2026 1
        \<lparr>d_year = 2026, d_month = 1, d_day = 31\<rparr> 0) = Inr 0 \<and>
   map_sum id (\<lambda>data. map cc_liability (credit_cards data))
     (calculate_snapshot ledger_cards 1 2026 1
        \<lparr>d_year = 2026, d_month = 1, d_day = 31\<rparr> 0) = Inr [100, 0] \<and>
   credit_card_liabilities ledger_cards 1 \<lparr>d_year = 2026, d_month = 1, d_day = 31\<rparr> = 100"
  by code_simp

section \<open>The profit and loss report\<close>

text \<open>
  C7. The specification has the profit and loss report answer "not found" for a
  business that does not exist. \<open>PLReportService.generate_report\<close> never looks the
  business up: for the identifier 999 in an empty store it returns the all-zero report,
  where the balance-sheet service (and likewise the tax service) raises
  "Business 999 not found".
\<close>

theorem pl_report_of_missing_business:
  "PL_generate_report ledger_empty 999 2026 =
     Inr \<lparr>pl_business_id = 999, pl_year = 2026, pl_currency = ''CHF'',
          pl_months = map (\<lambda>month. (month, ytd_zero)) [1 .. 12], pl_ytd = ytd_zero\<rparr> \<and>
   BS_generate_report ledger_empty 999 2026 = Inl (BusinessNotFound 999)"
  by code_simp

section \<open>Transaction validation\<close>

lemma foldl_validate_step:
  "foldl (validate_step today s) acc txns =
     (fst acc @ concat (map (\<lambda>t. opt_list (check_missing_allocation s t) @
                                  opt_list (check_allocation_mismatch s t)) txns),
      snd acc @ concat (map (\<lambda>t. opt_list (check_transfer_balance s t) @
                                  opt_list (check_unreconciled_transaction today t)) txns))"
  by (induction txns arbitrary: acc) (simp_all add: validate_step_def)

lemma errors_validate_transactions:
  "errors (validate_transactions today s business_id year month) =
     concat (map (\<lambda>t. opt_list (check_missing_allocation s t) @
                        opt_list (check_allocation_mismatch s t))
               (validation_scope s business_id year month))"
  by (simp add: validate_transactions_def Let_def foldl_validate_step)

lemma warnings_validate_transactions:
  "warnings (validate_transactions today s business_id year month) =
     concat (map (\<lambda>t. opt_list (check_transfer_balance s t) @
                        opt_list (check_unreconciled_transaction today t))
               (validation_scope s business_id year month))"
  by (simp add: validate_transactions_def Let_def foldl_validate_step)

lemma check_ids:
  "check_missing_allocation s t = Some f \<Longrightarrow> f_transaction_id f = txn_id t"
  "check_allocation_mismatch s t = Some f \<Longrightarrow> f_transaction_id f = txn_id t"
  "check_transfer_balance s t = Some f \<Longrightarrow> f_transaction_id f = txn_id t"
  "check_unreconciled_transaction today t = Some f \<Longrightarrow> f_transaction_id f = txn_id t"
  by (auto simp: check_missing_allocation_def check_allocation_mismatch_def
      check_transfer_balance_def check_unreconciled_transaction_def finding_def Let_def
      split: if_splits list.splits option.splits)

lemma findings_for_concat:
  assumes "distinct (map key xs)" "x \<in> set xs"
    and "\<And>y f. y \<in> set xs \<Longrightarrow> f \<in> set (F y) \<Longrightarrow> f_transaction_id f = key y"
  shows "findings_for (key x) (concat (map F xs)) = F x"
  using assms
proof (induction xs)
  case Nil
  then show ?case by simp
next
  case (Cons y ys)
  have all_y: "filter (\<lambda>f. f_transaction_id f = key y) (F y) = F y"
    using Cons.prems(3) [of y] by (simp add: filter_id_conv)
  show ?case
  proof (cases "x = y")
    case True
    have "\<And>z f. z \<in> set ys \<Longrightarrow> f \<in> set (F z) \<Longrightarrow> f_transaction_id f \<noteq> key y"
      using Cons.prems(1) Cons.prems(3)
      by (metis distinct.simps(2) image_eqI list.set_intros(2) list.simps(9) set_map)
    then have "filter (\<lambda>f. f_transaction_id f = key y) (concat (map F ys)) = []"
      by (auto simp: filter_empty_conv)
    with True all_y show ?thesis by (simp add: findings_for_def)
  next
    case False
    then have x_in: "x \<in> set ys" using Cons.prems(2) by simp
    then have "key x \<noteq> key y"
      using Cons.prems(1) by (metis distinct.simps(2) image_eqI list.simps(9) set_map)
    then have "filter (\<lambda>f. f_transaction_id f = key x) (F y) = []"
      using Cons.prems(3) [of y] by (auto simp: filter_empty_conv)
    moreover have "findings_for (key x) (concat (map F ys)) = F x"
      using Cons.IH x_in Cons.prems(1) Cons.prems(3) by simp
    ultimately show ?thesis by (simp add: findings_for_def)
  qed
qed

lemma distinct_validation_scope:
  "distinct (map txn_id (transactions s)) \<Longrightarrow>
   distinct (map txn_id (validation_scope s business_id year month))"
  by (simp add: validation_scope_def query_txns_def Let_def distinct_map_filter)

text \<open>
  C10, as stated: a transaction without allocation lines gets exactly one finding. The
  transaction of 5 January 2026 in \<open>ledger_unallocated\<close> is unreconciled; validated on
  1 June 2026 it gets two findings, the missing-allocation error and the
  stale-reconciliation warning.
\<close>

theorem zero_lines_two_findings_counterexample:
  "map f_error_type
     (findings_for (txn_id txn_unallocated)
        (errors (validate_transactions \<lparr>d_year = 2026, d_month = 6, d_day = 1\<rparr>
                   ledger_unallocated 1 None None) @
         warnings (validate_transactions \<lparr>d_year = 2026, d_month = 6, d_day = 1\<rparr>
                     ledger_unallocated 1 None None))) =
   [MISSING_ALLOCATION, UNRECONCILED_TRANSACTION]"
  by code_simp

text \<open>
  C10, amended: for every transaction in scope that has no allocation lines (primary
  keys being unique), transaction validation emits exactly one error about it, the
  missing-allocation error; the allocation-mismatch check and the transfer check emit
  nothing about it. The only other finding about it is the stale-reconciliation
  warning, emitted exactly when the transaction is not reconciled and more than 30
  days older than the current date.
\<close>

theorem zero_lines_findings:
  assumes "distinct (map txn_id (transactions s))"
    and "txn \<in> set (validation_scope s business_id year month)"
    and "txn_lines s txn = []"
  shows "findings_for (txn_id txn)
           (errors (validate_transactions today s business_id year month)) =
           [finding txn MISSING_ALLOCATION ERROR NoDetail] \<and>
         check_allocation_mismatch s txn = None \<and>
         check_transfer_balance s txn = None \<and>
         findings_for (txn_id txn)
           (warnings (validate_transactions today s business_id year month)) =
           (if \<not> is_reconciled txn \<and> 30 < toordinal today - toordinal (txn_date txn)
            then [finding txn UNRECONCILED_TRANSACTION WARNING
                    (UnreconciledDetail (toordinal today - toordinal (txn_date txn)))]
            else [])"
proof -
  let ?scope = "validation_scope s business_id year month"
  have d: "distinct (map txn_id ?scope)"
    using assms(1) by (rule distinct_validation_scope)
  have e: "findings_for (txn_id txn)
             (errors (validate_transactions today s business_id year month)) =
           opt_list (check_missing_allocation s txn) @
           opt_list (check_allocation_mismatch s txn)"
    unfolding errors_validate_transactions
    by (rule findings_for_concat [OF d assms(2)])
       (auto simp: opt_list_def check_ids split: option.splits)
  have w: "findings_for (txn_id txn)
             (warnings (validate_transactions today s business_id year month)) =
           opt_list (check_transfer_balance s txn) @
           opt_list (check_unreconciled_transaction today txn)"
    unfolding warnings_validate_transactions
    by (rule findings_for_concat [OF d assms(2)])
       (auto simp: opt_list_def check_ids split: option.splits)
  show ?thesis
    unfolding e w using assms(3)
    by (simp add: opt_list_def check_missing_allocation_def check_allocation_mismatch_def
        check_transfer_balance_def check_unreconciled_transaction_def Let_def)
qed

theorem zero_lines_findings_witness:
  "distinct (map txn_id (transactions ledger_unallocated)) \<and>
   txn_unallocated \<in> set (validation_scope ledger_unallocated 1 None None) \<and>
   txn_lines ledger_unallocated txn_unallocated = [] \<and>
   findings_for (txn_id txn_unallocated)
     (errors (validate_transactions \<lparr>d_year = 2026, d_month = 6, d_day = 1\<rparr>
                ledger_unallocated 1 None None)) =
     [finding txn_unallocated MISSING_ALLOCATION ERROR NoDetail] \<and>
   findings_for (txn_id txn_unallocated)
     (warnings (validate_transactions \<lparr>d_year = 2026, d_month = 6, d_day = 1\<rparr>
                  ledger_unallocated 1 None None)) =
     [finding txn_unallocated UNRECONCILED_TRANSACTION WARNING (UnreconciledDetail 147)]"
proof -
  have h1: "distinct (map txn_id (transactions ledger_unallocated))"
    by (simp add: ledger_unallocated_def)
  have h2: "txn_unallocated \<in> set (validation_scope ledger_unallocated 1 None None)"
    by (simp add: validation_scope_def truthy_def ledger_unallocated_def txn_unallocated_def
        query_eval)
  have h3: "txn_lines ledger_unallocated txn_unallocated = []"
    by (simp add: txn_lines_def ledger_unallocated_def)
  have age: "toordinal \<lparr>d_year = 2026, d_month = 6, d_day = 1\<rparr> -
             toordinal (txn_date txn_unallocated) = 147"
    by (simp add: txn_unallocated_def date_eval upto_rec1)
  have open_item: "\<not> is_reconciled txn_unallocated"
    by (simp add: txn_unallocated_def)
  show ?thesis
    using h1 h2 h3
      zero_lines_findings [OF h1 h2 h3, of "\<lparr>d_year = 2026, d_month = 6, d_day = 1\<rparr>"]
    by (simp add: age open_item)
qed

text \<open>
  C8, as stated: the current date of the stale-reconciliation check is a parameter
  \<open>as_of\<close>, so that two runs on the same inputs give the same result whenever they run.
  \<open>validate_transactions\<close> has no such parameter; the check reads the system clock. The
  same call on the same ledger counts 2 warnings on 15 March 2026 and 4 warnings on
  1 June 2026.
\<close>

theorem clock_changes_result_counterexample:
  "warning_count (validate_transactions \<lparr>d_year = 2026, d_month = 3, d_day = 15\<rparr>
                    ledger_transfers 1 None None) = 2 \<and>
   warning_count (validate_transactions \<lparr>d_year = 2026, d_month = 6, d_day = 1\<rparr>
                    ledger_transfers 1 None None) = 4"
  by code_simp

text \<open>
  C8, amended: transaction validation takes the business, the year and the month, and
  the stale-reconciliation check reads the current date from the system clock. For a
  fixed ledger and fixed arguments the result depends on that date through the
  stale-reconciliation warnings only: the number of transactions checked, the errors
  and all other warnings are the same on any two dates.
\<close>

theorem clock_affects_stale_warnings_only:
  "errors (validate_transactions today1 s business_id year month) =
     errors (validate_transactions today2 s business_id year month) \<and>
   total_transactions_checked (validate_transactions today1 s business_id year month) =
     total_transactions_checked (validate_transactions today2 s business_id year month) \<and>
   filter (\<lambda>f. f_error_type f \<noteq> UNRECONCILED_TRANSACTION)
     (warnings (validate_transactions today1 s business_id year month)) =
   filter (\<lambda>f. f_error_type f \<noteq> UNRECONCILED_TRANSACTION)
     (warnings (validate_transactions today2 s business_id year month))"
proof -
  have u: "filter (\<lambda>f. f_error_type f \<noteq> UNRECONCILED_TRANSACTION)
             (opt_list (check_unreconciled_transaction today t)) = []" for today t
    by (simp add: opt_list_def check_unreconciled_transaction_def finding_def Let_def)
  have "filter (\<lambda>f. f_error_type f \<noteq> UNRECONCILED_TRANSACTION)
          (concat (map (\<lambda>t. opt_list (check_transfer_balance s t) @
                             opt_list (check_unreconciled_transaction today t)) txns)) =
        filter (\<lambda>f. f_error_type f \<noteq> UNRECONCILED_TRANSACTION)
          (concat (map (\<lambda>t. opt_list (check_transfer_balance s t)) txns))" for today txns
    by (induction txns) (simp_all add: u)
  then show ?thesis
    by (simp add: errors_validate_transactions warnings_validate_transactions)
       (simp add: validate_transactions_def Let_def)
qed

theorem clock_affects_stale_warnings_only_witness:
  "errors (validate_transactions \<lparr>d_year = 2026, d_month = 3, d_day = 15\<rparr>
             ledger_transfers 1 None None) =
     errors (validate_transactions \<lparr>d_year = 2026, d_month = 6, d_day = 1\<rparr>
               ledger_transfers 1 None None) \<and>
   filter (\<lambda>f. f_error_type f \<noteq> UNRECONCILED_TRANSACTION)
     (warnings (validate_transactions \<lparr>d_year = 2026, d_month = 3, d_day = 15\<rparr>
                  ledger_transfers 1 None None)) =
   filter (\<lambda>f. f_error_type f \<noteq> UNRECONCILED_TRANSACTION)
     (warnings (validate_transactions \<lparr>d_year = 2026, d_month = 6, d_day = 1\<rparr>
                  ledger_transfers 1 None None))"
  using clock_affects_stale_warnings_only
    [of "\<lparr>d_year = 2026, d_month = 3, d_day = 15\<rparr>" ledger_transfers 1 None None
        "\<lparr>d_year = 2026, d_month = 6, d_day = 1\<rparr>"]
  by simp

section \<open>Transfer validation\<close>

lemma foldl_transfer_step:
  "foldl transfer_step (tout, tin, outs, ins) lines =
     (foldl dec_add tout
        (map amount (filter (\<lambda>l. special_type l = Some TRANSFER_OUT) lines)),
      foldl dec_add tin
        (map amount (filter (\<lambda>l. special_type l = Some TRANSFER_IN) lines)),
      outs @ map transfer_entry (filter (\<lambda>l. special_type l = Some TRANSFER_OUT) lines),
      ins @ map transfer_entry (filter (\<lambda>l. special_type l = Some TRANSFER_IN) lines))"
  by (induction lines arbitrary: tout tin outs ins) (simp_all add: transfer_step_def)

lemma line_txn_in_set: "line_txn s l = Some t \<Longrightarrow> t \<in> set (transactions s)"
  by (auto simp: line_txn_def find_Some_iff)

lemma query_lines_cong:
  assumes "\<And>t. t \<in> set (transactions s) \<Longrightarrow> date_ok1 (txn_date t) = date_ok2 (txn_date t)"
  shows "query_lines s business_id date_ok1 line_ok = query_lines s business_id date_ok2 line_ok"
  unfolding query_lines_def
  by (rule filter_cong [OF refl]) (auto split: option.splits dest: line_txn_in_set simp: assms)

lemma filter_query_lines:
  "filter P (query_lines s business_id date_ok line_ok) =
     query_lines s business_id date_ok (\<lambda>l. line_ok l \<and> P l)"
  by (simp add: query_lines_def conj_ac)

lemma query_lines_sum_exact:
  assumes "amounts_in_range s"
  shows "foldl dec_add 0 (map amount (query_lines s business_id date_ok line_ok)) =
           sum_list (map amount (query_lines s business_id date_ok line_ok))"
    and "\<bar>sum_list (map amount (query_lines s business_id date_ok line_ok))\<bar> < 10 ^ 24"
    and "is_cents (sum_list (map amount (query_lines s business_id date_ok line_ok)))"
  unfolding query_lines_def by (rule selection_sum_exact [OF assms])+

text \<open>
  C6. For every business, every year from 1 to 9999 and every month from 1 to 12, on a
  ledger of valid dates whose sums are exact, transfer validation of the month returns
  a result and leaves the store as it was. The difference it reports is the sum of the
  TRANSFER_OUT line amounts of the month minus the sum of its TRANSFER_IN line amounts,
  \<open>is_balanced\<close> is true exactly when that difference is 0, and the two lists hold the
  transaction and line identifiers (with the amounts) of the contributing lines. For
  2000.00 out and 1500.00 in within one month the result is unbalanced with the
  difference 500.00.
\<close>

theorem transfer_validation_month:
  assumes "1 \<le> year" "year \<le> 9999" "1 \<le> month" "month \<le> 12"
    and "\<forall>t\<in>set (transactions s). valid_date (txn_date t)"
    and "amounts_in_range s"
  shows "\<exists>r. validate_month business_id year month s = (Inr r, s) \<and>
           difference r =
             sum_list (map amount (month_transfer_lines s business_id year month TRANSFER_OUT)) -
             sum_list (map amount (month_transfer_lines s business_id year month TRANSFER_IN)) \<and>
           is_balanced r = (difference r = 0) \<and>
           transfers_out r =
             map transfer_entry (month_transfer_lines s business_id year month TRANSFER_OUT) \<and>
           transfers_in r =
             map transfer_entry (month_transfer_lines s business_id year month TRANSFER_IN)"
proof -
  let ?start = "\<lparr>d_year = year, d_month = month, d_day = 1\<rparr>"
  let ?end = "if month = 12 then \<lparr>d_year = year, d_month = 12, d_day = 31\<rparr>
              else \<lparr>d_year = year, d_month = month + 1, d_day = 1\<rparr>"
  let ?lines = "query_lines s business_id (in_window month ?start ?end)
                  (\<lambda>l. special_type l \<in> {Some TRANSFER_IN, Some TRANSFER_OUT})"
  have window: "in_window month ?start ?end (txn_date t) = in_month year month (txn_date t)"
    if "t \<in> set (transactions s)" for t
    using assms(5) that by (intro in_window_month [OF assms(3,4)]) simp
  have sel: "filter (\<lambda>l. special_type l = Some st) ?lines =
             month_transfer_lines s business_id year month st"
    if "st = TRANSFER_IN \<or> st = TRANSFER_OUT" for st
  proof -
    have "filter (\<lambda>l. special_type l = Some st) ?lines =
          query_lines s business_id (in_window month ?start ?end)
            (\<lambda>l. special_type l \<in> {Some TRANSFER_IN, Some TRANSFER_OUT} \<and>
                 special_type l = Some st)"
      by (rule filter_query_lines)
    also have "\<dots> = query_lines s business_id (in_window month ?start ?end)
                      (\<lambda>l. special_type l = Some st)"
      using that unfolding query_lines_def by (intro filter_cong) auto
    also have "\<dots> = month_transfer_lines s business_id year month st"
      unfolding month_transfer_lines_def by (rule query_lines_cong) (rule window)
    finally show ?thesis .
  qed
  define out_lines where "out_lines = month_transfer_lines s business_id year month TRANSFER_OUT"
  define in_lines where "in_lines = month_transfer_lines s business_id year month TRANSFER_IN"
  have so: "filter (\<lambda>l. special_type l = Some TRANSFER_OUT) ?lines = out_lines"
    unfolding out_lines_def by (rule sel) simp
  have si: "filter (\<lambda>l. special_type l = Some TRANSFER_IN) ?lines = in_lines"
    unfolding in_lines_def by (rule sel) simp
  have eo: "foldl dec_add 0 (map amount out_lines) = sum_list (map amount out_lines)"
    and bo: "\<bar>sum_list (map amount out_lines)\<bar> < 10 ^ 24"
    and co: "is_cents (sum_list (map amount out_lines))"
    unfolding out_lines_def month_transfer_lines_def
    by (rule query_lines_sum_exact [OF assms(6)])+
  have ei: "foldl dec_add 0 (map amount in_lines) = sum_list (map amount in_lines)"
    and bi: "\<bar>sum_list (map amount in_lines)\<bar> < 10 ^ 24"
    and ci: "is_cents (sum_list (map amount in_lines))"
    unfolding in_lines_def month_transfer_lines_def
    by (rule query_lines_sum_exact [OF assms(6)])+
  have "is_cents (sum_list (map amount out_lines) - sum_list (map amount in_lines))"
    using co ci by (rule is_cents_diff)
  moreover have "\<bar>sum_list (map amount out_lines) - sum_list (map amount in_lines)\<bar> < 10 ^ 26"
    using bo bi
      abs_triangle_ineq4 [of "sum_list (map amount out_lines)" "sum_list (map amount in_lines)"]
    by simp
  ultimately have diff: "dec_sub (sum_list (map amount out_lines)) (sum_list (map amount in_lines)) =
      sum_list (map amount out_lines) - sum_list (map amount in_lines)"
    unfolding dec_sub_def by (rule fix_prec_cents)
  have fold: "foldl transfer_step (0, 0, [], []) ?lines =
      (sum_list (map amount out_lines), sum_list (map amount in_lines),
       map transfer_entry out_lines, map transfer_entry in_lines)"
    unfolding foldl_transfer_step so si eo ei by simp
  show ?thesis
    unfolding validate_month_def date_ctor_first [OF assms(1-4)]
      month_end_date_value [OF assms(1-4)] session_all_def
    by (simp only: sum.case prod.case fold Let_def diff
        out_lines_def [symmetric] in_lines_def [symmetric]) simp
qed

theorem transfer_validation_month_witness:
  "(1::int) \<le> 2026 \<and> (2026::int) \<le> 9999 \<and> (1::int) \<le> 3 \<and> (3::int) \<le> 12 \<and>
   list_all (\<lambda>t. valid_date (txn_date t)) (transactions ledger_transfers) \<and>
   amounts_in_range ledger_transfers \<and>
   (\<exists>r. validate_month 1 2026 3 ledger_transfers = (Inr r, ledger_transfers) \<and>
        difference r = 500 \<and> is_balanced r = False \<and>
        transfers_out r = [\<lparr>te_transaction_id = 1, te_line_id = 1, te_amount = 2000\<rparr>] \<and>
        transfers_in r = [\<lparr>te_transaction_id = 2, te_line_id = 2, te_amount = 1500\<rparr>])"
proof -
  have h5: "\<forall>t\<in>set (transactions ledger_transfers). valid_date (txn_date t)"
    by (simp add: ledger_transfers_def valid_date_def days_in_month_def)
  have h6: "amounts_in_range ledger_transfers"
    by (simp add: amounts_in_range_def ledger_transfers_def is_cents_def)
  have o: "month_transfer_lines ledger_transfers 1 2026 3 TRANSFER_OUT =
             [\<lparr>line_id = 1, transaction_id = 1, category_id = None,
               special_type = Some TRANSFER_OUT, amount = 2000\<rparr>]"
    by (simp add: month_transfer_lines_def in_month_def ledger_transfers_def query_eval)
  have i: "month_transfer_lines ledger_transfers 1 2026 3 TRANSFER_IN =
             [\<lparr>line_id = 2, transaction_id = 2, category_id = None,
               special_type = Some TRANSFER_IN, amount = 1500\<rparr>]"
    by (simp add: month_transfer_lines_def in_month_def ledger_transfers_def query_eval)
  from transfer_validation_month [OF _ _ _ _ h5 h6, of 2026 3 1]
  show ?thesis
    using h5 h6 by (auto simp: o i transfer_entry_def list_all_iff)
qed

section \<open>The profit and loss report: months and year to date\<close>

lemma map_of_dict_add:
  "map_of (dict_add d k' v) k =
     (if k = k' then Some (dec_add (case map_of d k of None \<Rightarrow> 0 | Some old \<Rightarrow> old) v)
      else map_of d k)"
  by (simp add: dict_add_def update_conv')

lemma distinct_dict_add:
  "distinct (map fst d) \<Longrightarrow> distinct (map fst (dict_add d k v))"
  by (simp add: dict_add_def distinct_update)

lemma category_step_cases:
  "category_step cats acc l =
     (if allocated cats l
      then (dec_add (fst acc) (amount l),
            dict_add (snd acc) (cat_code_of cats (the (category_id l))) (amount l))
      else acc)"
  by (simp add: category_step_def allocated_def split: option.splits)

lemma allocated_to_iff:
  "allocated_to cats k l \<longleftrightarrow> allocated cats l \<and> cat_code_of cats (the (category_id l)) = k"
  by (simp add: allocated_to_def allocated_def split: option.splits)

lemma fst_foldl_category_step:
  "fst (foldl (category_step cats) acc lines) =
     foldl dec_add (fst acc) (map amount (filter (allocated cats) lines))"
  by (induction lines arbitrary: acc) (simp_all add: category_step_cases)

lemma distinct_foldl_category_step:
  "distinct (map fst (snd acc)) \<Longrightarrow>
   distinct (map fst (snd (foldl (category_step cats) acc lines)))"
  by (induction lines arbitrary: acc) (simp_all add: category_step_cases distinct_dict_add)

lemma snd_foldl_category_step:
  "map_of (snd (foldl (category_step cats) acc lines)) k =
     (if filter (allocated_to cats k) lines = [] then map_of (snd acc) k
      else Some (foldl dec_add (case map_of (snd acc) k of None \<Rightarrow> 0 | Some v \<Rightarrow> v)
                   (map amount (filter (allocated_to cats k) lines))))"
proof (induction lines arbitrary: acc)
  case Nil
  show ?case by simp
next
  case (Cons l lines)
  show ?case
  proof (cases "allocated_to cats k l")
    case True
    then have a: "allocated cats l" "cat_code_of cats (the (category_id l)) = k"
      by (simp_all add: allocated_to_iff)
    have step: "map_of (snd (category_step cats acc l)) k =
                  Some (dec_add (case map_of (snd acc) k of None \<Rightarrow> 0 | Some v \<Rightarrow> v) (amount l))"
      using a by (simp add: category_step_cases map_of_dict_add)
    show ?thesis
      using True by (simp add: Cons.IH step)
  next
    case False
    have step: "map_of (snd (category_step cats acc l)) k = map_of (snd acc) k"
      using False by (auto simp: category_step_cases map_of_dict_add allocated_to_iff)
    show ?thesis
      using False by (simp add: Cons.IH step)
  qed
qed

lemma map_of_merge_items:
  assumes "distinct (map fst items)"
  shows "map_of (merge_items d items) k =
           (case map_of items k of
              None \<Rightarrow> map_of d k
            | Some v \<Rightarrow> Some (dec_add (case map_of d k of None \<Rightarrow> 0 | Some old \<Rightarrow> old) v))"
  using assms
proof (induction items arbitrary: d)
  case Nil
  show ?case by (simp add: merge_items_def)
next
  case (Cons item items)
  obtain k' v where item: "item = (k', v)" by (cases item)
  have d: "distinct (map fst items)" and fresh: "k' \<notin> fst ` set items"
    using Cons.prems by (simp_all add: item)
  have unfold: "merge_items d (item # items) = merge_items (dict_add d k' v) items"
    by (simp add: merge_items_def item)
  show ?case
  proof (cases "k = k'")
    case True
    then have "map_of items k = None" using fresh by (simp add: map_of_eq_None_iff)
    then show ?thesis
      unfolding unfold Cons.IH [OF d] using True by (simp add: item map_of_dict_add)
  next
    case False
    then show ?thesis
      unfolding unfold Cons.IH [OF d]
      by (simp add: item map_of_dict_add split: option.splits)
  qed
qed

lemma total_of_ytd_step:
  "total_of ty (ytd_step ytd d) = dec_add (total_of ty ytd) (total_of ty d)"
  by (cases ty) (simp_all add: total_of_def ytd_step_def)

lemma by_category_of_ytd_step:
  "by_category_of ty (ytd_step ytd d) =
     merge_items (by_category_of ty ytd) (by_category_of ty d)"
  by (cases ty) (simp_all add: by_category_of_def ytd_step_def)

lemma total_of_foldl_ytd_step:
  "total_of ty (foldl ytd_step acc ds) = foldl dec_add (total_of ty acc) (map (total_of ty) ds)"
  by (induction ds arbitrary: acc) (simp_all add: total_of_ytd_step)

lemma fields_foldl_ytd_step:
  "cogs_inventory_adjustment (foldl ytd_step acc ds) =
     foldl dec_add (cogs_inventory_adjustment acc) (map cogs_inventory_adjustment ds)"
  "gross_profit (foldl ytd_step acc ds) =
     foldl dec_add (gross_profit acc) (map gross_profit ds)"
  "net_profit (foldl ytd_step acc ds) =
     foldl dec_add (net_profit acc) (map net_profit ds)"
  by (induction ds arbitrary: acc) (simp_all add: ytd_step_def)

lemma month_values_Nil [simp]: "month_values ty k [] = []"
  by (simp add: month_values_def)

lemma month_values_Cons:
  "month_values ty k (d # ds) =
     (case map_of (by_category_of ty d) k of
        None \<Rightarrow> month_values ty k ds
      | Some v \<Rightarrow> v # month_values ty k ds)"
  by (simp add: month_values_def split: option.splits)

lemma by_category_of_foldl_ytd_step:
  assumes "\<forall>d\<in>set ds. distinct (map fst (by_category_of ty d))"
  shows "map_of (by_category_of ty (foldl ytd_step acc ds)) k =
           (if month_values ty k ds = [] then map_of (by_category_of ty acc) k
            else Some (foldl dec_add
                         (case map_of (by_category_of ty acc) k of None \<Rightarrow> 0 | Some v \<Rightarrow> v)
                         (month_values ty k ds)))"
  using assms
proof (induction ds arbitrary: acc)
  case Nil
  show ?case by simp
next
  case (Cons d ds)
  have dd: "distinct (map fst (by_category_of ty d))"
    and rest: "\<forall>d\<in>set ds. distinct (map fst (by_category_of ty d))"
    using Cons.prems by simp_all
  have step: "map_of (by_category_of ty (ytd_step acc d)) k =
      (case map_of (by_category_of ty d) k of
         None \<Rightarrow> map_of (by_category_of ty acc) k
       | Some v \<Rightarrow>
           Some (dec_add (case map_of (by_category_of ty acc) k of None \<Rightarrow> 0 | Some old \<Rightarrow> old) v))"
    unfolding by_category_of_ytd_step by (rule map_of_merge_items [OF dd])
  show ?case
    by (simp add: Cons.IH [OF rest] step month_values_Cons split: option.splits)
qed

lemma sum_list_month_values:
  "sum_list (month_values ty k ds) = sum_list (map (amount_of ty k) ds)"
  by (induction ds) (simp_all add: month_values_Cons amount_of_def split: option.splits)

lemma month_values_empty_iff:
  "month_values ty k ds = [] \<longleftrightarrow> (\<forall>d\<in>set ds. map_of (by_category_of ty d) k = None)"
  by (induction ds) (simp_all add: month_values_Cons split: option.splits)

lemma set_month_values:
  "v \<in> set (month_values ty k ds) \<Longrightarrow> \<exists>d\<in>set ds. map_of (by_category_of ty d) k = Some v"
  by (induction ds) (auto simp: month_values_Cons split: option.splits)

lemma length_month_values: "length (month_values ty k ds) \<le> length ds"
  by (induction ds) (simp_all add: month_values_Cons split: option.splits)

lemma foldl_dec_add_bounded:
  assumes "\<forall>x\<in>set xs. is_cents x \<and> \<bar>x\<bar> \<le> 3 * 10 ^ 24" "length xs \<le> 12"
  shows "foldl dec_add 0 xs = sum_list xs"
proof -
  have "sum_list (map abs xs) \<le> of_nat (length xs) * (3 * 10 ^ 24)"
    using assms(1)
  proof (induction xs)
    case Nil
    show ?case by simp
  next
    case (Cons x xs)
    then have "\<bar>x\<bar> \<le> 3 * 10 ^ 24" "sum_list (map abs xs) \<le> of_nat (length xs) * (3 * 10 ^ 24)"
      by simp_all
    then show ?case by (simp add: algebra_simps)
  qed
  also have "\<dots> \<le> of_nat 12 * (3 * 10 ^ 24)"
    using assms(2) by (intro mult_right_mono) simp_all
  also have "\<dots> < (10::rat) ^ 26" by simp
  finally have "\<bar>0::rat\<bar> + sum_list (map abs xs) < 10 ^ 26" by simp
  with assms(1) show ?thesis
    using foldl_dec_add_exact [of xs 0] by simp
qed

lemma PL_calculate_month_value:
  assumes "1 \<le> year" "year \<le> 9999" "1 \<le> month" "month \<le> 12"
    and "\<forall>t\<in>set (transactions s). valid_date (txn_date t)"
  shows "PL_calculate_month s business_id year month ic cc ec =
           Inr (pl_month_of (query_lines s business_id (in_month year month) (\<lambda>l. True))
                  ic cc ec)"
proof -
  let ?start = "\<lparr>d_year = year, d_month = month, d_day = 1\<rparr>"
  let ?end = "if month = 12 then \<lparr>d_year = year, d_month = 12, d_day = 31\<rparr>
              else \<lparr>d_year = year, d_month = month + 1, d_day = 1\<rparr>"
  have window: "in_window month ?start ?end (txn_date t) = in_month year month (txn_date t)"
    if "t \<in> set (transactions s)" for t
    using assms(5) that by (intro in_window_month [OF assms(3,4)]) simp
  have lines: "query_lines s business_id (in_window month ?start ?end) (\<lambda>l. True) =
               query_lines s business_id (in_month year month) (\<lambda>l. True)"
    by (rule query_lines_cong) (rule window)
  show ?thesis
    unfolding PL_calculate_month_def date_ctor_first [OF assms(1-4)]
      month_end_date_value [OF assms(1-4)]
    by (simp only: sum.case lines Let_def)
qed

lemma filter_query_lines_sum:
  assumes "amounts_in_range s"
  shows "foldl dec_add 0 (map amount (filter P (query_lines s business_id date_ok line_ok))) =
           sum_list (map amount (filter P (query_lines s business_id date_ok line_ok)))"
    and "\<bar>sum_list (map amount (filter P (query_lines s business_id date_ok line_ok)))\<bar>
           < 10 ^ 24"
    and "is_cents (sum_list (map amount (filter P (query_lines s business_id date_ok line_ok))))"
  unfolding filter_query_lines by (rule query_lines_sum_exact [OF assms])+

text \<open>
  The figures of a month on a ledger in range: every total and every value of a
  per-category map is an exact sum of line amounts.
\<close>

lemma month_figures:
  fixes s :: db and business_id :: int and date_ok :: "date \<Rightarrow> bool"
    and ic cc ec :: "Category list"
  assumes "amounts_in_range s"
  defines "lines \<equiv> query_lines s business_id date_ok (\<lambda>l. True)"
  defines "D \<equiv> pl_month_of lines ic cc ec"
  shows "total_of ty D = sum_list (map amount (filter (allocated (cats_for ty ic cc ec)) lines))"
    and "is_cents (total_of ty D) \<and> \<bar>total_of ty D\<bar> < 10 ^ 24"
    and "distinct (map fst (by_category_of ty D))"
    and "map_of (by_category_of ty D) k =
           (if filter (allocated_to (cats_for ty ic cc ec) k) lines = [] then None
            else Some (sum_list (map amount
                         (filter (allocated_to (cats_for ty ic cc ec) k) lines))))"
    and "map_of (by_category_of ty D) k = Some v \<Longrightarrow> is_cents v \<and> \<bar>v\<bar> < 10 ^ 24"
    and "cogs_inventory_adjustment D = 0"
    and "gross_profit D = income_total D - cogs_total D"
    and "net_profit D = gross_profit D - expenses_total D"
    and "is_cents (gross_profit D) \<and> \<bar>gross_profit D\<bar> < 2 * 10 ^ 24"
    and "is_cents (net_profit D) \<and> \<bar>net_profit D\<bar> < 3 * 10 ^ 24"
proof -
  have fold_total: "fst (foldl (category_step cats) (0, []) lines) =
                    sum_list (map amount (filter (allocated cats) lines))" for cats
    unfolding fst_foldl_category_step lines_def
    using filter_query_lines_sum(1) [OF assms(1)] by simp
  have total_small: "is_cents (sum_list (map amount (filter (allocated cats) lines))) \<and>
                     \<bar>sum_list (map amount (filter (allocated cats) lines))\<bar> < 10 ^ 24" for cats
    unfolding lines_def
    using filter_query_lines_sum(2,3) [OF assms(1)] by simp
  have add0: "dec_add x 0 = x" if "is_cents x \<and> \<bar>x\<bar> < 10 ^ 24" for x
  proof -
    from that have "is_cents x" "\<bar>x\<bar> < 10 ^ 26" by simp_all
    then show ?thesis unfolding dec_add_def by (simp add: fix_prec_cents)
  qed
  show tot: "total_of ty D =
               sum_list (map amount (filter (allocated (cats_for ty ic cc ec)) lines))"
    by (cases ty)
       (simp_all add: total_of_def D_def pl_month_of_def Let_def cats_for_def fold_total
          add0 [OF total_small])
  show tsmall: "is_cents (total_of ty D) \<and> \<bar>total_of ty D\<bar> < 10 ^ 24"
    unfolding tot by (rule total_small)
  have bc: "by_category_of ty D =
              snd (foldl (category_step (cats_for ty ic cc ec)) (0, []) lines)"
    by (cases ty) (simp_all add: by_category_of_def D_def pl_month_of_def Let_def cats_for_def)
  show "distinct (map fst (by_category_of ty D))"
    unfolding bc by (rule distinct_foldl_category_step) simp
  show m: "map_of (by_category_of ty D) k =
           (if filter (allocated_to (cats_for ty ic cc ec) k) lines = [] then None
            else Some (sum_list (map amount
                         (filter (allocated_to (cats_for ty ic cc ec) k) lines))))"
    unfolding bc snd_foldl_category_step lines_def
    using filter_query_lines_sum(1) [OF assms(1)] by simp
  show "is_cents v \<and> \<bar>v\<bar> < 10 ^ 24" if "map_of (by_category_of ty D) k = Some v"
    using that unfolding m lines_def
    using filter_query_lines_sum(2,3) [OF assms(1)] by (auto split: if_splits)
  show "cogs_inventory_adjustment D = 0" by (simp add: D_def pl_month_of_def Let_def)
  have i: "income_total D = sum_list (map amount (filter (allocated ic) lines))"
    and c: "cogs_total D = sum_list (map amount (filter (allocated cc) lines))"
    and e: "expenses_total D = sum_list (map amount (filter (allocated ec) lines))"
    by (simp_all add: D_def pl_month_of_def Let_def fold_total add0 [OF total_small])
  have si: "is_cents (income_total D)" "\<bar>income_total D\<bar> < 10 ^ 24"
    and sc: "is_cents (cogs_total D)" "\<bar>cogs_total D\<bar> < 10 ^ 24"
    and se: "is_cents (expenses_total D)" "\<bar>expenses_total D\<bar> < 10 ^ 24"
    unfolding i c e using total_small by simp_all
  have gc: "is_cents (income_total D - cogs_total D)" using si(1) sc(1) by (rule is_cents_diff)
  have gb: "\<bar>income_total D - cogs_total D\<bar> < 2 * 10 ^ 24"
    using si(2) sc(2) abs_triangle_ineq4 [of "income_total D" "cogs_total D"] by simp
  then have "\<bar>income_total D - cogs_total D\<bar> < 10 ^ 26" by simp
  with gc have "dec_sub (income_total D) (cogs_total D) = income_total D - cogs_total D"
    unfolding dec_sub_def by (rule fix_prec_cents)
  moreover have "gross_profit D = dec_sub (income_total D) (cogs_total D)"
    by (simp add: D_def pl_month_of_def Let_def)
  ultimately show g: "gross_profit D = income_total D - cogs_total D" by simp
  show gs: "is_cents (gross_profit D) \<and> \<bar>gross_profit D\<bar> < 2 * 10 ^ 24"
    unfolding g using gc gb by simp
  have nc: "is_cents (gross_profit D - expenses_total D)"
    using gs se(1) by (intro is_cents_diff) simp_all
  have nb: "\<bar>gross_profit D - expenses_total D\<bar> < 3 * 10 ^ 24"
    using gs se(2) abs_triangle_ineq4 [of "gross_profit D" "expenses_total D"] by simp
  then have "\<bar>gross_profit D - expenses_total D\<bar> < 10 ^ 26" by simp
  with nc have "dec_sub (gross_profit D) (expenses_total D) = gross_profit D - expenses_total D"
    unfolding dec_sub_def by (rule fix_prec_cents)
  moreover have "net_profit D = dec_sub (gross_profit D) (expenses_total D)"
    by (simp add: D_def pl_month_of_def Let_def)
  ultimately show n: "net_profit D = gross_profit D - expenses_total D" by simp
  show "is_cents (net_profit D) \<and> \<bar>net_profit D\<bar> < 3 * 10 ^ 24"
    unfolding n using nc nb by simp
qed

lemma no_activity_no_key:
  assumes "distinct (map code cats)" "c \<in> set cats"
    and "filter (\<lambda>l. category_id l = Some (cat_id c)) lines = []"
  shows "filter (allocated_to cats (code c)) lines = []"
proof -
  have "\<not> allocated_to cats (code c) l" if "l \<in> set lines" for l
  proof
    assume a: "allocated_to cats (code c) l"
    then obtain cid where cid: "category_id l = Some cid" "cid \<in> set (map cat_id cats)"
      "cat_code_of cats cid = code c"
      by (auto simp: allocated_to_def split: option.splits)
    from cid(2) obtain c' where c': "find (\<lambda>x. cat_id x = cid) cats = Some c'"
      by (cases "find (\<lambda>x. cat_id x = cid) cats") (auto simp: find_None_iff)
    then have in_cats: "c' \<in> set cats" and id: "cat_id c' = cid"
      by (auto simp: find_Some_iff)
    have "code c' = code c" using cid(3) c' by (simp add: cat_code_of_def)
    moreover have "inj_on code (set cats)" using assms(1) by (simp add: distinct_map)
    ultimately have "c' = c" using in_cats assms(2) by (auto dest: inj_onD)
    then have "category_id l = Some (cat_id c)" using cid(1) id by simp
    with that assms(3) show False by (auto simp: filter_empty_conv)
  qed
  then show ?thesis by (simp add: filter_empty_conv)
qed

lemma total_of_ytd_zero [simp]: "total_of ty ytd_zero = 0"
  by (cases ty) (simp_all add: total_of_def ytd_zero_def)

lemma by_category_of_ytd_zero [simp]: "by_category_of ty ytd_zero = []"
  by (cases ty) (simp_all add: by_category_of_def ytd_zero_def)

lemma cats_for_cats_of_type:
  "cats_for ty (cats_of_type s business_id INCOME) (cats_of_type s business_id COGS)
     (cats_of_type s business_id EXPENSE) = cats_of_type s business_id ty"
  by (cases ty) (simp_all add: cats_for_def)

text \<open>
  C9. For a year from 1 to 9999, on a ledger of valid dates whose sums are exact and
  whose category codes are unique within the business, the profit and loss report has
  the months 1 to 12, and:
  a category of a type without activity in a month (no line of the business dated in
  that month is allocated to it) is absent from that month's per-category map of the
  type; the year-to-date totals, inventory adjustment, gross profit and net profit are
  the sums of the twelve monthly figures; and a category code is in a year-to-date
  per-category map exactly when it is in the map of at least one month, with the sum
  of its monthly amounts.
\<close>

theorem pl_sparse_months_and_ytd_sums:
  assumes "1 \<le> year" "year \<le> 9999"
    and "\<forall>t\<in>set (transactions s). valid_date (txn_date t)"
    and "amounts_in_range s"
    and "distinct (map code (filter (\<lambda>c. cat_business_id c = business_id) (categories s)))"
  shows "\<exists>report. PL_generate_report s business_id year = Inr report \<and>
           map fst (pl_months report) = [1 .. 12] \<and>
           (\<forall>month data ty c.
              (month, data) \<in> set (pl_months report) \<and>
              c \<in> set (cats_of_type s business_id ty) \<and>
              category_lines s business_id year month c = [] \<longrightarrow>
              map_of (by_category_of ty data) (code c) = None) \<and>
           (\<forall>ty. total_of ty (pl_ytd report) =
                   sum_list (map (total_of ty) (map snd (pl_months report)))) \<and>
           cogs_inventory_adjustment (pl_ytd report) =
             sum_list (map cogs_inventory_adjustment (map snd (pl_months report))) \<and>
           gross_profit (pl_ytd report) =
             sum_list (map gross_profit (map snd (pl_months report))) \<and>
           net_profit (pl_ytd report) =
             sum_list (map net_profit (map snd (pl_months report))) \<and>
           (\<forall>ty k. map_of (by_category_of ty (pl_ytd report)) k =
                     (if \<forall>data\<in>set (map snd (pl_months report)).
                           map_of (by_category_of ty data) k = None
                      then None
                      else Some (sum_list (map (amount_of ty k)
                                   (map snd (pl_months report))))))"
proof -
  define ic where "ic = cats_of_type s business_id INCOME"
  define cc where "cc = cats_of_type s business_id COGS"
  define ec where "ec = cats_of_type s business_id EXPENSE"
  define lines where "lines = (\<lambda>m. query_lines s business_id (in_month year m) (\<lambda>l. True))"
  define D where "D = (\<lambda>m. pl_month_of (lines m) ic cc ec)"
  define ds where "ds = map D [1 .. 12]"
  define months where "months = map (\<lambda>m. (m, D m)) [1 .. 12]"
  define ytd where "ytd = PL_calculate_ytd months"
  define report where "report =
     \<lparr>pl_business_id = business_id, pl_year = year, pl_currency = ''CHF'',
      pl_months = months, pl_ytd = ytd\<rparr>"
  have snd_months: "map snd months = ds" by (simp add: months_def ds_def comp_def)
  have len: "length ds = 12" by (simp add: ds_def upto_1_12)
  have in_ds: "\<exists>m. d = D m" if "d \<in> set ds" for d using that by (auto simp: ds_def)
  \<comment> \<open>the report\<close>
  have month: "(case PL_calculate_month s business_id year m ic cc ec of
                  Inl e \<Rightarrow> Inl e | Inr month_data \<Rightarrow> Inr (m, month_data)) = Inr (m, D m)"
    if "m \<in> set [1 .. 12]" for m
  proof -
    from that have "1 \<le> m" "m \<le> 12" by simp_all
    from PL_calculate_month_value [OF assms(1,2) this assms(3)] show ?thesis
      by (simp add: D_def lines_def)
  qed
  have "mapM_err (\<lambda>m. case PL_calculate_month s business_id year m ic cc ec of
                        Inl e \<Rightarrow> Inl e | Inr month_data \<Rightarrow> Inr (m, month_data)) [1 .. 12] =
        Inr months"
    unfolding months_def by (rule mapM_err_Inr) (rule month)
  then have returned: "PL_generate_report s business_id year = Inr report"
    by (simp add: PL_generate_report_def Let_def ic_def cc_def ec_def report_def ytd_def)
  have keys: "map fst (pl_months report) = [1 .. 12]"
    by (simp add: report_def months_def comp_def)
  \<comment> \<open>the months\<close>
  have cats: "cats_for ty ic cc ec = cats_of_type s business_id ty" for ty
    unfolding ic_def cc_def ec_def by (rule cats_for_cats_of_type)
  have codes: "distinct (map code (cats_of_type s business_id ty))" for ty
    unfolding cats_of_type_def using assms(5) by (rule distinct_map_filter)
  have sparse: "map_of (by_category_of ty data) (code c) = None"
    if "(m, data) \<in> set (pl_months report)" "c \<in> set (cats_of_type s business_id ty)"
      "category_lines s business_id year m c = []" for m data ty c
  proof -
    from that(1) have data: "data = D m" by (auto simp: report_def months_def)
    have "filter (\<lambda>l. category_id l = Some (cat_id c)) (lines m) = []"
      using that(3) by (simp add: category_lines_def lines_def filter_query_lines)
    from no_activity_no_key [OF codes that(2) this]
    have "filter (allocated_to (cats_for ty ic cc ec) (code c)) (lines m) = []"
      by (simp add: cats)
    then show ?thesis
      unfolding data D_def lines_def
      using month_figures(4) [OF assms(4), of ty business_id "in_month year m" ic cc ec "code c"]
      by (simp add: lines_def)
  qed
  \<comment> \<open>year to date\<close>
  have ytd_fold: "ytd = foldl ytd_step ytd_zero ds"
    by (simp add: ytd_def PL_calculate_ytd_def snd_months)
  have totals: "total_of ty ytd = sum_list (map (total_of ty) ds)" for ty
  proof -
    have "\<forall>x\<in>set (map (total_of ty) ds). is_cents x \<and> \<bar>x\<bar> \<le> 3 * 10 ^ 24"
    proof
      fix x assume "x \<in> set (map (total_of ty) ds)"
      then obtain m where x: "x = total_of ty (D m)" using in_ds by auto
      have "is_cents x \<and> \<bar>x\<bar> < 10 ^ 24"
        unfolding x D_def lines_def by (rule month_figures(2) [OF assms(4)])
      then show "is_cents x \<and> \<bar>x\<bar> \<le> 3 * 10 ^ 24" by simp
    qed
    then have "foldl dec_add 0 (map (total_of ty) ds) = sum_list (map (total_of ty) ds)"
      by (rule foldl_dec_add_bounded) (simp add: len)
    then show ?thesis by (simp add: ytd_fold total_of_foldl_ytd_step)
  qed
  have inv: "cogs_inventory_adjustment ytd = sum_list (map cogs_inventory_adjustment ds)"
  proof -
    have "\<forall>x\<in>set (map cogs_inventory_adjustment ds). is_cents x \<and> \<bar>x\<bar> \<le> 3 * 10 ^ 24"
    proof
      fix x assume "x \<in> set (map cogs_inventory_adjustment ds)"
      then obtain m where x: "x = cogs_inventory_adjustment (D m)" using in_ds by auto
      have "x = 0" unfolding x D_def lines_def by (rule month_figures(6) [OF assms(4)])
      then show "is_cents x \<and> \<bar>x\<bar> \<le> 3 * 10 ^ 24" by simp
    qed
    then have "foldl dec_add 0 (map cogs_inventory_adjustment ds) =
               sum_list (map cogs_inventory_adjustment ds)"
      by (rule foldl_dec_add_bounded) (simp add: len)
    then show ?thesis by (simp add: ytd_fold fields_foldl_ytd_step ytd_zero_def)
  qed
  have gross: "gross_profit ytd = sum_list (map gross_profit ds)"
  proof -
    have "\<forall>x\<in>set (map gross_profit ds). is_cents x \<and> \<bar>x\<bar> \<le> 3 * 10 ^ 24"
    proof
      fix x assume "x \<in> set (map gross_profit ds)"
      then obtain m where x: "x = gross_profit (D m)" using in_ds by auto
      have "is_cents x \<and> \<bar>x\<bar> < 2 * 10 ^ 24"
        unfolding x D_def lines_def by (rule month_figures(9) [OF assms(4)])
      then show "is_cents x \<and> \<bar>x\<bar> \<le> 3 * 10 ^ 24" by simp
    qed
    then have "foldl dec_add 0 (map gross_profit ds) = sum_list (map gross_profit ds)"
      by (rule foldl_dec_add_bounded) (simp add: len)
    then show ?thesis by (simp add: ytd_fold fields_foldl_ytd_step ytd_zero_def)
  qed
  have net: "net_profit ytd = sum_list (map net_profit ds)"
  proof -
    have "\<forall>x\<in>set (map net_profit ds). is_cents x \<and> \<bar>x\<bar> \<le> 3 * 10 ^ 24"
    proof
      fix x assume "x \<in> set (map net_profit ds)"
      then obtain m where x: "x = net_profit (D m)" using in_ds by auto
      have "is_cents x \<and> \<bar>x\<bar> < 3 * 10 ^ 24"
        unfolding x D_def lines_def by (rule month_figures(10) [OF assms(4)])
      then show "is_cents x \<and> \<bar>x\<bar> \<le> 3 * 10 ^ 24" by simp
    qed
    then have "foldl dec_add 0 (map net_profit ds) = sum_list (map net_profit ds)"
      by (rule foldl_dec_add_bounded) (simp add: len)
    then show ?thesis by (simp add: ytd_fold fields_foldl_ytd_step ytd_zero_def)
  qed
  have maps: "map_of (by_category_of ty ytd) k =
                (if \<forall>data\<in>set ds. map_of (by_category_of ty data) k = None then None
                 else Some (sum_list (map (amount_of ty k) ds)))" for ty k
  proof -
    have dist: "\<forall>d\<in>set ds. distinct (map fst (by_category_of ty d))"
    proof
      fix d assume "d \<in> set ds"
      then obtain m where d: "d = D m" using in_ds by auto
      show "distinct (map fst (by_category_of ty d))"
        unfolding d D_def lines_def by (rule month_figures(3) [OF assms(4)])
    qed
    have "\<forall>x\<in>set (month_values ty k ds). is_cents x \<and> \<bar>x\<bar> \<le> 3 * 10 ^ 24"
    proof
      fix x assume "x \<in> set (month_values ty k ds)"
      then obtain d where "d \<in> set ds" "map_of (by_category_of ty d) k = Some x"
        using set_month_values by blast
      then obtain m where "map_of (by_category_of ty (D m)) k = Some x" using in_ds by auto
      then have "is_cents x \<and> \<bar>x\<bar> < 10 ^ 24"
        unfolding D_def lines_def by (rule month_figures(5) [OF assms(4)])
      then show "is_cents x \<and> \<bar>x\<bar> \<le> 3 * 10 ^ 24" by simp
    qed
    then have "foldl dec_add 0 (month_values ty k ds) = sum_list (month_values ty k ds)"
      using length_month_values [of ty k ds] by (intro foldl_dec_add_bounded) (simp_all add: len)
    then show ?thesis
      unfolding ytd_fold by_category_of_foldl_ytd_step [OF dist]
      by (simp add: month_values_empty_iff sum_list_month_values)
  qed
  have r: "pl_months report = months" "pl_ytd report = ytd" by (simp_all add: report_def)
  have sparse_all: "\<forall>month data ty c.
      (month, data) \<in> set (pl_months report) \<and>
      c \<in> set (cats_of_type s business_id ty) \<and>
      category_lines s business_id year month c = [] \<longrightarrow>
      map_of (by_category_of ty data) (code c) = None"
    using sparse by blast
  from returned keys sparse_all totals inv gross net maps show ?thesis
    by (intro exI [of _ report]) (simp add: r snd_months)
qed

theorem pl_sparse_months_and_ytd_sums_witness:
  "list_all (\<lambda>t. valid_date (txn_date t)) (transactions ledger_pl) \<and>
   amounts_in_range ledger_pl \<and>
   distinct (map code (filter (\<lambda>c. cat_business_id c = 1) (categories ledger_pl))) \<and>
   map_sum id (\<lambda>r. (net_profit (pl_ytd r), map (\<lambda>p. net_profit (snd p)) (pl_months r)))
     (PL_generate_report ledger_pl 1 2026) = Inr (50, [50, 0, 0, 0, 0, 0, 0, 0, 0, 0, 0, 0]) \<and>
   (\<exists>report. PL_generate_report ledger_pl 1 2026 = Inr report \<and>
      map fst (pl_months report) = [1 .. 12] \<and>
      net_profit (pl_ytd report) =
        sum_list (map net_profit (map snd (pl_months report))) \<and>
      (\<forall>ty k. map_of (by_category_of ty (pl_ytd report)) k =
                (if \<forall>data\<in>set (map snd (pl_months report)).
                      map_of (by_category_of ty data) k = None
                 then None
                 else Some (sum_list (map (amount_of ty k)
                              (map snd (pl_months report)))))))"
proof -
  have h3: "\<forall>t\<in>set (transactions ledger_pl). valid_date (txn_date t)"
    by (simp add: ledger_pl_def valid_date_def days_in_month_def)
  have h4: "amounts_in_range ledger_pl"
    by (simp add: amounts_in_range_def ledger_pl_def is_cents_def)
  have h5: "distinct (map code (filter (\<lambda>c. cat_business_id c = 1) (categories ledger_pl)))"
    by (simp add: ledger_pl_def)
  have v: "map_sum id (\<lambda>r. (net_profit (pl_ytd r), map (\<lambda>p. net_profit (snd p)) (pl_months r)))
     (PL_generate_report ledger_pl 1 2026) = Inr (50, [50, 0, 0, 0, 0, 0, 0, 0, 0, 0, 0, 0])"
    by code_simp
  from pl_sparse_months_and_ytd_sums [OF _ _ h3 h4 h5, of 2026]
  obtain report where "PL_generate_report ledger_pl 1 2026 = Inr report"
    "map fst (pl_months report) = [1 .. 12]"
    "net_profit (pl_ytd report) = sum_list (map net_profit (map snd (pl_months report)))"
    "\<forall>ty k. map_of (by_category_of ty (pl_ytd report)) k =
                (if \<forall>data\<in>set (map snd (pl_months report)).
                      map_of (by_category_of ty data) k = None
                 then None
                 else Some (sum_list (map (amount_of ty k)
                              (map snd (pl_months report)))))"
    by auto
  with h3 h4 h5 v show ?thesis unfolding list_all_iff by blast
qed

section \<open>The tax split\<close>

text \<open>
  C1. The specification asks for \<open>net = round2(gross / (1 + rate))\<close> and
  \<open>tax = gross - net\<close>, so that a gross amount of 108.10 at the rate 0.081 splits into
  net 100.00 and tax 8.10. \<open>calculate_tax_amount\<close> returns the rounded quotient itself
  as the tax amount and \<open>calculate_net_amount\<close> the remainder as the net amount: at this
  input the tax amount is 100.00 and the net amount is 8.10.
\<close>

theorem tax_split_108_10_swapped:
  "tax_split (1081 / 10) (Some \<lparr>rate = 81 / 1000\<rparr>) = Inr (100, 81 / 10)"
  by (simp add: tax_split_def calculate_tax_amount_def calculate_net_amount_def dec_eval)

text \<open>
  C4. For every gross amount of the domain (two decimal places, non-negative, below
  \<open>10^13\<close>) and every rate that is not negative, so for every rate in [0, 1), the tax
  split returns a tax amount and a net amount with \<open>net + tax == gross\<close> (in Decimal
  arithmetic and exactly), \<open>net \<ge> 0\<close> and \<open>tax \<ge> 0\<close>.
\<close>

theorem tax_split_identity:
  assumes "is_money gross" "0 \<le> gross" "0 \<le> rate tr"
  shows "\<exists>tax net. tax_split gross (Some tr) = Inr (tax, net) \<and>
           dec_add net tax = gross \<and> net + tax = gross \<and> 0 \<le> net \<and> 0 \<le> tax"
proof (cases "rate tr = 0")
  case True
  have "fix_prec gross = gross" using assms(1) by (rule fix_prec_money)
  then show ?thesis
    using True
    by (simp add: tax_split_def calculate_tax_amount_def calculate_net_amount_def
        dec_sub_def dec_add_def assms(2))
next
  case False
  have "1 \<le> 1 + rate tr" using assms(3) by simp
  then have d: "1 \<le> fix_prec (1 + rate tr)" by (rule fix_prec_ge_1)
  from tax_amount_bounds [OF assms(1,2) d] obtain tax
    where q: "quantize (fix_prec (gross / fix_prec (1 + rate tr))) = Inr tax"
      and t0: "0 \<le> tax" and t1: "tax \<le> gross" and tm: "is_money tax"
    by blast
  have nz: "fix_prec (1 + rate tr) \<noteq> 0" using d by simp
  have cta: "calculate_tax_amount gross (Some tr) = Inr tax"
    using q False nz by (simp add: calculate_tax_amount_def dec_add_def dec_div_def Let_def)
  have "is_money (gross - tax)" using assms(1) tm t0 t1 by (rule is_money_diff)
  then have net: "dec_sub gross tax = gross - tax"
    unfolding dec_sub_def by (rule fix_prec_money)
  have "dec_add (gross - tax) tax = gross"
    using fix_prec_money [OF assms(1)] by (simp add: dec_add_def)
  then show ?thesis
    using cta net t0 t1 by (simp add: tax_split_def calculate_net_amount_def)
qed

theorem tax_split_identity_witness:
  "is_money (10811 / 100) \<and> (0::rat) \<le> 10811 / 100 \<and> 0 \<le> rate \<lparr>rate = 81 / 1000\<rparr> \<and>
   tax_split (10811 / 100) (Some \<lparr>rate = 81 / 1000\<rparr>) = Inr (10001 / 100, 81 / 10) \<and>
   dec_add (81 / 10) (10001 / 100) = 10811 / 100"
proof -
  have h1: "is_money (10811 / 100)" by (simp add: is_money_def is_cents_def)
  have h2: "(0::rat) \<le> 10811 / 100" by simp
  have h3: "0 \<le> rate \<lparr>rate = 81 / 1000\<rparr>" by simp
  have v: "tax_split (10811 / 100) (Some \<lparr>rate = 81 / 1000\<rparr>) = Inr (10001 / 100, 81 / 10)"
    by (simp add: tax_split_def calculate_tax_amount_def calculate_net_amount_def dec_eval)
  from tax_split_identity [OF h1 h2 h3] obtain tax net
    where ts: "tax_split (10811 / 100) (Some \<lparr>rate = 81 / 1000\<rparr>) = Inr (tax, net)"
      and sum: "dec_add net tax = 10811 / 100"
    by blast
  from ts v have "tax = 10001 / 100" "net = 81 / 10" by simp_all
  with sum have "dec_add (81 / 10) (10001 / 100) = 10811 / 100" by simp
  with h1 h2 h3 v show ?thesis by blast
qed

text \<open>
  C5, as stated: the tax split rounds half up. A gross amount of 0.13 at the rate 0.04
  has the exact quotient 0.125; \<open>calculate_tax_amount\<close> returns 0.12, and rounding half
  up gives 0.13.
\<close>

theorem half_cent_not_rounded_up_counterexample:
  "calculate_tax_amount (13 / 100) (Some \<lparr>rate = 4 / 100\<rparr>) = Inr (12 / 100) \<and>
   (13 / 100) / (1 + 4 / 100) = (125 / 1000 :: rat) \<and>
   round2_half_up ((13 / 100) / (1 + 4 / 100)) = 13 / 100"
  by (simp add: calculate_tax_amount_def dec_eval round2_half_up_def round_half_up_def)

text \<open>
  C5, amended: the tax split rounds to two decimal places with the rounding mode of
  the decimal context, round-half-even (an exact half-cent goes to the even cent), in
  one \<open>quantize\<close> call on the result of the division. The division itself returns the
  quotient rounded to 28 significant digits; for a gross amount of the domain and a
  rate in (0, 1) with four decimal places this never changes the outcome, which is the
  exact quotient \<open>gross / (1 + rate)\<close> rounded half even to two decimal places.
\<close>

theorem tax_rounding_half_even:
  assumes "is_money gross" "0 \<le> gross" "is_rate (rate tr)" "rate tr \<noteq> 0"
  shows "calculate_tax_amount gross (Some tr) =
           Inr (round2_half_even (gross / (1 + rate tr)))"
proof -
  have d: "fix_prec (1 + rate tr) = 1 + rate tr" using assms(3) by (rule divisor_exact)
  have "0 \<le> rate tr" using assms(3) by (simp add: is_rate_def)
  then have nz: "1 + rate tr \<noteq> 0" by simp
  show ?thesis
    using tax_amount_value [OF assms] nz assms(4)
    by (simp add: calculate_tax_amount_def dec_add_def dec_div_def Let_def d)
qed

theorem tax_rounding_half_even_witness:
  "is_money (13 / 100) \<and> (0::rat) \<le> 13 / 100 \<and> is_rate (rate \<lparr>rate = 4 / 100\<rparr>) \<and>
   rate \<lparr>rate = 4 / 100\<rparr> \<noteq> 0 \<and>
   calculate_tax_amount (13 / 100) (Some \<lparr>rate = 4 / 100\<rparr>) = Inr (12 / 100)"
proof -
  have h1: "is_money (13 / 100)" by (simp add: is_money_def is_cents_def)
  have h2: "(0::rat) \<le> 13 / 100" by simp
  have h3: "is_rate (rate \<lparr>rate = 4 / 100\<rparr>)" by (simp add: is_rate_def)
  have h4: "rate \<lparr>rate = 4 / 100\<rparr> \<noteq> 0" by simp
  have v: "round2_half_even (1 / 8) = 3 / 25"
    by (simp add: round2_half_even_def round_half_even_def)
  show ?thesis
    using h1 h2 h3 h4 tax_rounding_half_even [OF h1 h2 h3 h4] by (simp add: v)
qed

end
